theory Spec2Isabelle
  imports Main "HOL-Library.Dlist"
begin

section \<open>Season filter\<close>

text \<open>
  A \<open>moment\<close> value, read through the three accessors the provider uses:
  \<open>year()\<close>, \<open>month()\<close> (zero-indexed, January is 0) and \<open>date()\<close> (day of the month).
\<close>

record moment =
  year :: int
  month :: int
  date :: int

definition isFirstHalf :: "moment \<Rightarrow> bool" where
  "isFirstHalf d = (month d < 7 \<or> (month d = 7 \<and> date d \<le> 14))"

definition isWithinSeason :: "int \<Rightarrow> moment \<Rightarrow> bool" where
  "isWithinSeason y d =
     ((y = year d \<and> \<not> isFirstHalf d) \<or> (y + 1 = year d \<and> isFirstHalf d))"

text \<open>Calendar order on dates, and the day a given month index and day number denote.\<close>

definition date_le :: "moment \<Rightarrow> moment \<Rightarrow> bool" where
  "date_le a b =
     (year a < year b \<or>
      (year a = year b \<and> (month a < month b \<or> (month a = month b \<and> date a \<le> date b))))"

definition day_of :: "int \<Rightarrow> int \<Rightarrow> int \<Rightarrow> moment" where
  "day_of y m d = \<lparr>year = y, month = m, date = d\<rparr>"

text \<open>
  Claim C1. For every year \<open>y\<close> and date \<open>d\<close>, \<open>isWithinSeason y d\<close> holds if and only if
  \<open>d\<close> lies between August 15 of year \<open>y\<close> and August 14 of year \<open>y + 1\<close>, both included
  (August has month index 7). In particular, for season 2023: August 14 2023 is outside,
  August 15 2023 is inside, August 14 2024 is inside and August 15 2024 is outside.
\<close>

theorem isWithinSeason_span:
  "(isWithinSeason y d \<longleftrightarrow> date_le (day_of y 7 15) d \<and> date_le d (day_of (y + 1) 7 14))
   \<and> \<not> isWithinSeason 2023 (day_of 2023 7 14)
   \<and> isWithinSeason 2023 (day_of 2023 7 15)
   \<and> isWithinSeason 2023 (day_of 2024 7 14)
   \<and> \<not> isWithinSeason 2023 (day_of 2024 7 15)"
  by (auto simp: isWithinSeason_def isFirstHalf_def date_le_def day_of_def)

theorem isWithinSeason_span_witness:
  "isWithinSeason 2022 (day_of 2023 2 1)
   \<and> date_le (day_of 2022 7 15) (day_of 2023 2 1)
   \<and> date_le (day_of 2023 2 1) (day_of 2023 7 14)"
  using isWithinSeason_span [of 2022 "day_of 2023 2 1"]
  by (simp add: isWithinSeason_def isFirstHalf_def date_le_def day_of_def)

section \<open>JavaScript strings\<close>

text \<open>
  A JavaScript string is a sequence of UTF-16 code units, modelled as a list of naturals;
  \<open>js\<close> writes an ASCII literal. The pages are requested with \<open>encoding: 'binary'\<close>, so
  the text the provider handles consists of Latin-1 code units (below 256).
\<close>

type_synonym jsstring = "nat list"

definition js :: "string \<Rightarrow> jsstring" where
  "js s = map of_char s"

text \<open>The characters \<open>\s\<close> and \<open>trim()\<close> treat as white space.\<close>

definition isWhiteSpace :: "nat \<Rightarrow> bool" where
  "isWhiteSpace c =
     (c \<in> {9, 10, 11, 12, 13, 32, 160, 5760, 8232, 8233, 8239, 8287, 12288, 65279}
      \<or> (8192 \<le> c \<and> c \<le> 8202))"

definition trim :: "jsstring \<Rightarrow> jsstring" where
  "trim s = rev (dropWhile isWhiteSpace (rev (dropWhile isWhiteSpace s)))"

text \<open>
  \<open>cut p s\<close> finds the leftmost occurrence of the literal \<open>p\<close> in \<open>s\<close> and returns what
  stands before and after it. \<open>String.prototype.replace\<close> with a string pattern replaces
  that occurrence only; a literal regular expression \<open>test\<close>s true when there is one.
\<close>

fun cut :: "jsstring \<Rightarrow> jsstring \<Rightarrow> (jsstring \<times> jsstring) option" where
  "cut p [] = (if p = [] then Some ([], []) else None)"
| "cut p (c # cs) =
     (if take (length p) (c # cs) = p then Some ([], drop (length p) (c # cs))
      else (case cut p cs of None \<Rightarrow> None | Some (b, a) \<Rightarrow> Some (c # b, a)))"

definition includesStr :: "jsstring \<Rightarrow> jsstring \<Rightarrow> bool" where
  "includesStr p s = (cut p s \<noteq> None)"

definition replaceFirst :: "jsstring \<Rightarrow> jsstring \<Rightarrow> jsstring \<Rightarrow> jsstring" where
  "replaceFirst p r s = (case cut p s of None \<Rightarrow> s | Some (b, a) \<Rightarrow> b @ r @ a)"

lemma cut_Some: "cut p s = Some (b, a) \<Longrightarrow> s = b @ p @ a"
proof (induction s arbitrary: b)
  case Nil
  then show ?case by (simp split: if_splits)
next
  case (Cons c cs)
  show ?case
  proof (cases "take (length p) (c # cs) = p")
    case True
    with Cons.prems have "b = []" "a = drop (length p) (c # cs)" by simp_all
    with True show ?thesis by (metis append_Nil append_take_drop_id)
  next
    case False
    with Cons.prems obtain b' where "cut p cs = Some (b', a)" "b = c # b'"
      by (auto split: option.splits)
    with Cons.IH show ?thesis by simp
  qed
qed

lemma replaceFirst_absent: "\<not> includesStr p s \<Longrightarrow> replaceFirst p r s = s"
  by (cases "cut p s") (simp_all add: includesStr_def replaceFirst_def)

lemma length_replaceFirst_le: "length (replaceFirst p [] s) \<le> length s"
proof (cases "cut p s")
  case None
  then show ?thesis by (simp add: replaceFirst_def)
next
  case (Some ba)
  obtain b a where ba: "ba = (b, a)" by (cases ba)
  from Some ba have "s = b @ p @ a" by (simp add: cut_Some)
  then have "length s = length b + length p + length a" by simp
  with Some ba show ?thesis by (simp add: replaceFirst_def)
qed

lemma length_replaceFirst_less:
  assumes "includesStr p s" and "p \<noteq> []"
  shows "length (replaceFirst p [] s) < length s"
proof -
  from assms(1) obtain b a where c: "cut p s = Some (b, a)"
    by (auto simp: includesStr_def)
  then have "s = b @ p @ a" by (rule cut_Some)
  then have "length s = length b + length p + length a" by simp
  with c assms(2) show ?thesis by (simp add: replaceFirst_def)
qed

lemma length_trim_le: "length (trim s) \<le> length s"
proof -
  have "length (trim s) \<le> length (dropWhile isWhiteSpace s)"
    unfolding trim_def by (metis length_dropWhile_le length_rev)
  also have "\<dots> \<le> length s" by (rule length_dropWhile_le)
  finally show ?thesis .
qed

lemma trim_head: "trim s = [] \<or> \<not> isWhiteSpace (hd (trim s))"
proof (cases "dropWhile isWhiteSpace s")
  case Nil
  show ?thesis unfolding trim_def Nil by simp
next
  case (Cons x xs)
  then have nx: "\<not> isWhiteSpace x" by (metis hd_dropWhile list.distinct(1) list.sel(1))
  have "dropWhile isWhiteSpace (rev xs @ [x]) = dropWhile isWhiteSpace (rev xs) @ [x]
        \<or> dropWhile isWhiteSpace (rev xs @ [x]) = [x]"
    using nx by (simp add: dropWhile_append)
  then have "hd (rev (dropWhile isWhiteSpace (rev xs @ [x]))) = x"
    by auto
  with nx show ?thesis unfolding trim_def Cons by simp
qed

lemma trim_last: "dropWhile isWhiteSpace (rev (trim s)) = rev (trim s)"
  by (simp add: trim_def)

lemma trim_idem: "trim (trim s) = trim s"
proof -
  have "dropWhile isWhiteSpace (trim s) = trim s"
    using trim_head [of s] by (auto simp: dropWhile_eq_self_iff)
  then have "trim (trim s) = rev (dropWhile isWhiteSpace (rev (trim s)))"
    by (simp add: trim_def [of "trim s"])
  then show ?thesis by (simp add: trim_last)
qed

section \<open>Contest title cleaner\<close>

text \<open>
  The two labels are \<open>Compeetition a points\<close> and \<open>Compeetition sans points\<close>, with
  the accented letters as the code units 233 and 224.
\<close>

definition labelPoints :: jsstring where
  "labelPoints = js ''Comp'' @ [233] @ js ''tition '' @ [224] @ js '' points''"

definition labelSansPoints :: jsstring where
  "labelSansPoints = js ''Comp'' @ [233] @ js ''tition sans points''"

definition cleanContest :: "jsstring \<Rightarrow> jsstring" where
  "cleanContest original =
     trim (replaceFirst labelSansPoints [] (replaceFirst labelPoints [] original))"


lemma labels_nonempty: "labelPoints \<noteq> []" "labelSansPoints \<noteq> []"
  by (simp_all add: labelPoints_def labelSansPoints_def js_def)

text \<open>
  Claim C8 (as amended). \<open>cleanContest\<close> removes only the first occurrence of each label,
  so it is not idempotent on every input: applying it twice gives the same as applying it
  once exactly when the once-cleaned title contains neither label.
\<close>

theorem cleanContest_idempotent_iff:
  "cleanContest (cleanContest s) = cleanContest s \<longleftrightarrow>
     \<not> includesStr labelPoints (cleanContest s) \<and> \<not> includesStr labelSansPoints (cleanContest s)"
proof
  assume "\<not> includesStr labelPoints (cleanContest s) \<and> \<not> includesStr labelSansPoints (cleanContest s)"
  then have "cleanContest (cleanContest s) = trim (cleanContest s)"
    by (simp add: cleanContest_def [of "cleanContest s"] replaceFirst_absent)
  then show "cleanContest (cleanContest s) = cleanContest s"
    by (simp add: cleanContest_def [of s] trim_idem)
next
  assume idem: "cleanContest (cleanContest s) = cleanContest s"
  define r where "r = cleanContest s"
  define r1 where "r1 = replaceFirst labelPoints [] r"
  define r2 where "r2 = replaceFirst labelSansPoints [] r1"
  have cr: "cleanContest r = trim r2"
    by (simp add: cleanContest_def r1_def r2_def)
  have le: "length (trim r2) \<le> length r2" "length r2 \<le> length r1" "length r1 \<le> length r"
    by (simp_all add: length_trim_le r1_def r2_def length_replaceFirst_le)
  have eq: "length (trim r2) = length r"
    using idem cr by (simp add: r_def)
  have a: "\<not> includesStr labelPoints r"
  proof
    assume "includesStr labelPoints r"
    then have "length r1 < length r"
      unfolding r1_def by (rule length_replaceFirst_less) (rule labels_nonempty)
    with le eq show False by simp
  qed
  then have r1r: "r1 = r" by (simp add: r1_def replaceFirst_absent)
  have b: "\<not> includesStr labelSansPoints r"
  proof
    assume "includesStr labelSansPoints r"
    then have "length r2 < length r"
      unfolding r2_def r1r by (rule length_replaceFirst_less) (rule labels_nonempty)
    with le eq show False by simp
  qed
  from a b show "\<not> includesStr labelPoints (cleanContest s) \<and> \<not> includesStr labelSansPoints (cleanContest s)"
    by (simp add: r_def)
qed

lemma cleanContest_example: "cleanContest (js ''Finale '' @ labelPoints @ js '' Adultes '') = js ''Finale  Adultes''"
  by (simp add: cleanContest_def labelPoints_def labelSansPoints_def js_def replaceFirst_def trim_def isWhiteSpace_def)

theorem cleanContest_idempotent_iff_witness:
  "cleanContest (cleanContest (js ''Finale '' @ labelPoints @ js '' Adultes ''))
     = cleanContest (js ''Finale '' @ labelPoints @ js '' Adultes '')
   \<and> \<not> includesStr labelPoints (cleanContest (js ''Finale '' @ labelPoints @ js '' Adultes ''))"
  using cleanContest_idempotent_iff [of "js ''Finale '' @ labelPoints @ js '' Adultes ''"]
  by (simp add: cleanContest_def labelPoints_def labelSansPoints_def js_def replaceFirst_def
      trim_def isWhiteSpace_def includesStr_def)

text \<open>
  The title made of the first label twice is cleaned to that label, and cleaned again to
  the empty title.
\<close>

theorem cleanContest_not_idempotent:
  "cleanContest (cleanContest (labelPoints @ labelPoints)) \<noteq> cleanContest (labelPoints @ labelPoints)"
  by (simp add: cleanContest_def labelPoints_def labelSansPoints_def js_def replaceFirst_def
      trim_def isWhiteSpace_def)

section \<open>Library functions on strings\<close>

text \<open>
  Case mapping, exact on Latin-1 code units and the identity on the others:
  \<open>toLowerCase\<close> maps \<open>A-Z\<close> and the accented capitals 192 to 222 (but the multiplication
  sign 215) to the letter 32 places on; \<open>toUpperCase\<close> maps back, and writes the sharp s
  as \<open>SS\<close>, the micro sign as 924 and the y with diaeresis as 376.
\<close>

definition toLowerCase :: "jsstring \<Rightarrow> jsstring" where
  "toLowerCase s =
     map (\<lambda>c. if (65 \<le> c \<and> c \<le> 90) \<or> (192 \<le> c \<and> c \<le> 222 \<and> c \<noteq> 215) then c + 32 else c) s"

definition upperUnits :: "nat \<Rightarrow> jsstring" where
  "upperUnits c =
     (if (97 \<le> c \<and> c \<le> 122) \<or> (224 \<le> c \<and> c \<le> 254 \<and> c \<noteq> 247) then [c - 32]
      else if c = 223 then [83, 83]
      else if c = 181 then [924]
      else if c = 255 then [376]
      else [c])"

definition toUpperCase :: "jsstring \<Rightarrow> jsstring" where
  "toUpperCase s = concat (map upperUnits s)"

text \<open>
  The helpers of \<open>underscore.string\<close> coerce their argument with \<open>makeString\<close>, which
  turns \<open>null\<close> and \<open>undefined\<close> (here \<open>None\<close>) into the empty string.
\<close>

definition makeString :: "jsstring option \<Rightarrow> jsstring" where
  "makeString x = (case x of None \<Rightarrow> [] | Some s \<Rightarrow> s)"

text \<open>
  \<open>stripTags\<close> replaces every match of \<open>/<\/?[^>]+>/g\<close> by nothing. A match starts
  at a \<open><\<close> (60) that is followed by at least one character other than \<open>>\<close> (62) and
  then by a \<open>>\<close>; it ends at the first \<open>>\<close> after the \<open><\<close>.
\<close>

function stripTagsFrom :: "jsstring \<Rightarrow> jsstring" where
  "stripTagsFrom [] = []"
| "stripTagsFrom (c # cs) =
     (if c = 60 \<and> takeWhile (\<lambda>x. x \<noteq> 62) cs \<noteq> [] \<and> dropWhile (\<lambda>x. x \<noteq> 62) cs \<noteq> []
      then stripTagsFrom (tl (dropWhile (\<lambda>x. x \<noteq> 62) cs))
      else c # stripTagsFrom cs)"
  by pat_completeness auto
termination
proof (relation "measure length")
  show "wf (measure length)" by simp
next
  fix c :: nat and cs :: jsstring
  have "length (tl (dropWhile (\<lambda>x. x \<noteq> 62) cs)) \<le> length cs"
    using length_dropWhile_le [of "\<lambda>x. x \<noteq> 62" cs] by simp
  then show "(tl (dropWhile (\<lambda>x. x \<noteq> 62) cs), c # cs) \<in> measure length" by simp
next
  fix c :: nat and cs :: jsstring
  show "(cs, c # cs) \<in> measure length" by simp
qed

definition stripTags :: "jsstring option \<Rightarrow> jsstring" where
  "stripTags x = stripTagsFrom (makeString x)"

text \<open>
  \<open>titleize\<close> lowers the string and then upper-cases every match of
  \<open>/(?:^|\s|-)\S/g\<close>: a character that is not white space at the very start, or a white
  space or hyphen (45) together with the character after it when that is not white space.
  The search goes on after the match, so the second of two hyphens starts no match. This
  is the function of \<open>underscore.string\<close>; the provider reaches it through the curried
  import, \<open>titleizeFp\<close> below.
\<close>

fun titleizeFrom :: "bool \<Rightarrow> jsstring \<Rightarrow> jsstring" where
  "titleizeFrom start [] = []"
| "titleizeFrom start [c] = (if start \<and> \<not> isWhiteSpace c then toUpperCase [c] else [c])"
| "titleizeFrom start (c # d # ds) =
     (if start \<and> \<not> isWhiteSpace c then toUpperCase [c] @ titleizeFrom False (d # ds)
      else if (isWhiteSpace c \<or> c = 45) \<and> \<not> isWhiteSpace d
        then toUpperCase [c, d] @ titleizeFrom False ds
      else c # titleizeFrom False (d # ds))"

definition titleize :: "jsstring option \<Rightarrow> jsstring" where
  "titleize x = titleizeFrom True (toLowerCase (makeString x))"

text \<open>\<open>split\<close> on a literal separator.\<close>

function splitOn :: "jsstring \<Rightarrow> jsstring \<Rightarrow> jsstring list" where
  "splitOn p s =
     (if p = [] then map (\<lambda>c. [c]) s
      else (case cut p s of None \<Rightarrow> [s] | Some (b, a) \<Rightarrow> b # splitOn p a))"
  by pat_completeness auto
termination
proof (relation "measure (\<lambda>(p, s). length s)")
  show "wf (measure (\<lambda>(p, s). length s))" by simp
next
  fix p s :: jsstring and x2 :: "jsstring \<times> jsstring" and b a :: jsstring
  assume "p \<noteq> []" "cut p s = Some x2" "(b, a) = x2"
  then have "s = b @ p @ a" by (simp add: cut_Some)
  then have "length s = length b + length p + length a" by simp
  with \<open>p \<noteq> []\<close> show "((p, a), (p, s)) \<in> measure (\<lambda>(p, s). length s)" by simp
qed

declare splitOn.simps [simp del]

text \<open>\<open>slice\<close> with its clamping of indices, and reading an array past its end.\<close>

definition slice :: "jsstring \<Rightarrow> int \<Rightarrow> int \<Rightarrow> jsstring" where
  "slice s a b =
     (let n = int (length s);
          from = (if a < 0 then max (n + a) 0 else min a n);
          to = (if b < 0 then max (n + b) 0 else min b n)
      in take (nat (to - from)) (drop (nat from) s))"

definition nth_opt :: "'a list \<Rightarrow> nat \<Rightarrow> 'a option" where
  "nth_opt xs i = (if i < length xs then Some (xs ! i) else None)"

section \<open>Failures\<close>

text \<open>
  What the provider throws or rejects with: \<open>TypeError\<close> for a method call on \<open>null\<close>,
  the two wrapped parse failures of the extraction layer (row markup, or contest title and
  heat number, with the cause), a failed request wrapped by \<open>handleRequestError\<close> with its
  message prefix, the transport's own failure, a \<open>Joi\<close> validation failure (the label
  of the value and what is wrong with it) and the unknown group.
\<close>

datatype joi_failure = Required | NotAllowedEmpty | NotAString

datatype error =
    TypeError
  | NamesParseError jsstring error
  | RankingParseError jsstring nat error
  | RequestError jsstring error
  | NetworkError jsstring
  | ValidationError jsstring joi_failure
  | GroupNotFound jsstring

section \<open>Name normalizer\<close>

text \<open>
  The loop of \<open>cleanNames\<close> over the characters of one dancer, with the accumulators
  \<open>last\<close>, \<open>first\<close> and \<open>prevUpper\<close> as a triple. \<open>Array.from\<close> and \<open>charCodeAt\<close>
  agree on the index as long as the string has no surrogate pair, which Latin-1 text has
  not. \<open>removeAccents\<close> comes from \<open>../utils\<close> and is a parameter \<open>ra\<close> of the model.
\<close>

definition isUpperCode :: "nat \<Rightarrow> bool" where
  "isUpperCode code = ((65 \<le> code \<and> code \<le> 90) \<or> (192 \<le> code \<and> code \<le> 221))"

definition isSeparatorCode :: "nat \<Rightarrow> bool" where
  "isSeparatorCode code = (code \<in> {32, 39, 45})"

definition dancerStep :: "jsstring \<Rightarrow> jsstring \<times> jsstring \<times> bool \<Rightarrow> nat \<Rightarrow> jsstring \<times> jsstring \<times> bool" where
  "dancerStep dancer st i =
     (case st of (lst, frst, prevUpper) \<Rightarrow>
        (let code = dancer ! i in
         if isUpperCode code then (lst @ [code], frst, True)
         else if isSeparatorCode code then
           (if prevUpper then (lst @ [code], frst, False) else (lst, frst @ [code], False))
         else
           (if prevUpper
            then (slice lst 0 (int (length lst) - 1), frst @ slice dancer (int i - 1) (int i + 1), False)
            else (lst, frst @ [code], False))))"

definition parseDancer :: "jsstring \<Rightarrow> jsstring \<times> jsstring \<times> bool" where
  "parseDancer dancer = fold (\<lambda>i st. dancerStep dancer st i) [0..<length dancer] ([], [], False)"

definition dancerName :: "(jsstring \<Rightarrow> jsstring) \<Rightarrow> jsstring \<Rightarrow> jsstring" where
  "dancerName ra raw =
     (case parseDancer (stripTags (Some raw)) of (lst, frst, prevUpper) \<Rightarrow> ra frst @ [32] @ ra lst)"

text \<open>
  The provider imports \<open>titleize\<close> from \<open>underscore.string.fp\<close>, the curried form of the
  function above. Given a string it is that function; given \<open>undefined\<close> the curry takes no
  argument as received and returns a function, and the template literal of \<open>cleanNames\<close>
  writes the source text of that function into the result. The text is a parameter
  \<open>ft\<close> of the model.
\<close>

definition titleizeFp :: "jsstring \<Rightarrow> jsstring option \<Rightarrow> jsstring" where
  "titleizeFp ft x = (case x of None \<Rightarrow> ft | Some s \<Rightarrow> titleize (Some s))"

text \<open>A text to stand for the source of that function in the examples.\<close>

definition functionText :: jsstring where
  "functionText = js ''function () { [curried] }''"

definition coupleInconnu :: jsstring where
  "coupleInconnu = js ''couple inconnu''"

definition cleanNames :: "jsstring \<Rightarrow> (jsstring \<Rightarrow> jsstring) \<Rightarrow> jsstring option \<Rightarrow> error + jsstring" where
  "cleanNames ft ra names =
     (case names of
        None \<Rightarrow> Inl TypeError
      | Some n \<Rightarrow>
          if includesStr coupleInconnu (toLowerCase n) then Inr coupleInconnu
          else (let results = map (dancerName ra) (splitOn (js ''<br>'') n)
                in Inr (titleizeFp ft (nth_opt results 0) @ js '' - '' @ titleizeFp ft (nth_opt results 1))))"

text \<open>The base letter of a Latin-1 letter that carries a diacritic.\<close>

definition stripDiacritic :: "nat \<Rightarrow> nat" where
  "stripDiacritic c =
     (if 192 \<le> c \<and> c \<le> 197 then 65 else if c = 199 then 67
      else if 200 \<le> c \<and> c \<le> 203 then 69 else if 204 \<le> c \<and> c \<le> 207 then 73
      else if c = 209 then 78 else if 210 \<le> c \<and> c \<le> 214 then 79
      else if 217 \<le> c \<and> c \<le> 220 then 85 else if c = 221 then 89
      else if 224 \<le> c \<and> c \<le> 229 then 97 else if c = 231 then 99
      else if 232 \<le> c \<and> c \<le> 235 then 101 else if 236 \<le> c \<and> c \<le> 239 then 105
      else if c = 241 then 110 else if 242 \<le> c \<and> c \<le> 246 then 111
      else if 249 \<le> c \<and> c \<le> 252 then 117 else if c = 253 \<or> c = 255 then 121
      else c)"

text \<open>
  Modelled from the spec: \<open>removeAccents\<close> of \<open>../utils\<close>, which is not among the
  sources. Section 4.1 has it strip the diacritics of both accumulators; the example of
  section 8 shows no blank before the \<open>" - "\<close> that joins the dancers, although the scan
  leaves the blank after the surname in \<open>last\<close>, so the blanks around the accumulator are
  stripped as well.
\<close>

definition removeAccents :: "jsstring \<Rightarrow> jsstring" where
  "removeAccents str = map stripDiacritic (trim str)"

subsection \<open>The sentinel\<close>

text \<open>
  Two strings are equal up to the case of their ASCII letters when \<open>lowerASCII\<close> maps
  them to the same string. The sentinel phrase is in lower case.
\<close>

definition lowerASCII :: "nat \<Rightarrow> nat" where
  "lowerASCII c = (if 65 \<le> c \<and> c \<le> 90 then c + 32 else c)"

lemma cut_occurs: "cut p (a @ p @ b) \<noteq> None"
proof (induction a)
  case Nil
  have "take (length p) (p @ b) = p" by simp
  then show ?case by (cases "p @ b") (auto split: option.splits)
next
  case (Cons x a)
  then show ?case by (auto split: option.splits)
qed

lemma includesStr_occurs: "includesStr p (a @ p @ b)"
  by (simp add: includesStr_def cut_occurs)

lemma toLowerCase_append: "toLowerCase (a @ b) = toLowerCase a @ toLowerCase b"
  by (simp add: toLowerCase_def)

lemma toLowerCase_ascii:
  assumes "\<forall>c \<in> set s. lowerASCII c < 128"
  shows "toLowerCase s = map lowerASCII s"
  unfolding toLowerCase_def
proof (rule map_cong [OF refl])
  fix c assume "c \<in> set s"
  with assms have "lowerASCII c < 128" by simp
  then have "c < 128" by (simp add: lowerASCII_def split: if_splits)
  then show "(if (65 \<le> c \<and> c \<le> 90) \<or> (192 \<le> c \<and> c \<le> 222 \<and> c \<noteq> 215) then c + 32 else c)
               = lowerASCII c"
    by (simp add: lowerASCII_def)
qed

lemma coupleInconnu_ascii: "\<forall>c \<in> set coupleInconnu. c < 128"
  by (simp add: coupleInconnu_def js_def)

lemma toLowerCase_phrase:
  assumes "map lowerASCII mid = coupleInconnu"
  shows "toLowerCase mid = coupleInconnu"
proof -
  have "\<forall>c \<in> set mid. lowerASCII c \<in> set coupleInconnu"
    using assms by (metis imageI set_map)
  with coupleInconnu_ascii have "\<forall>c \<in> set mid. lowerASCII c < 128" by blast
  then show ?thesis using assms by (simp add: toLowerCase_ascii)
qed

text \<open>
  Claim C4. Whenever the input contains the phrase \<open>couple inconnu\<close> up to the case of
  its letters, that is, the input is \<open>pre @ mid @ suf\<close> where \<open>mid\<close> is the phrase in some
  mix of cases, \<open>cleanNames\<close> returns the sentinel \<open>couple inconnu\<close> itself, whatever
  \<open>pre\<close> and \<open>suf\<close> are and whatever \<open>removeAccents\<close> would do: no dancer is parsed.
\<close>

theorem cleanNames_sentinel:
  assumes "map lowerASCII mid = coupleInconnu"
  shows "cleanNames ft ra (Some (pre @ mid @ suf)) = Inr coupleInconnu"
proof -
  have "toLowerCase (pre @ mid @ suf) = toLowerCase pre @ coupleInconnu @ toLowerCase suf"
    using assms by (simp add: toLowerCase_append toLowerCase_phrase)
  then have "includesStr coupleInconnu (toLowerCase (pre @ mid @ suf))"
    by (simp add: includesStr_occurs)
  then show ?thesis by (simp add: cleanNames_def)
qed

theorem cleanNames_sentinel_witness:
  "cleanNames functionText removeAccents (Some (js ''DUPONT Jean<br>Couple INCONNU (forfait)''))
     = Inr (js ''couple inconnu'')"
  using cleanNames_sentinel
          [of "js ''Couple INCONNU''" functionText removeAccents "js ''DUPONT Jean<br>''" "js '' (forfait)''"]
  by (simp add: coupleInconnu_def js_def lowerASCII_def)

subsection \<open>The scan, character by character\<close>

text \<open>
  The loop reads the string through the index \<open>i\<close>. The same run, written as a recursion
  over the characters that remembers the one before: when \<open>prevUpper\<close> holds the character
  before exists and is the one \<open>slice (i - 1) (i + 1)\<close> takes up.
\<close>

definition scanStep :: "nat \<Rightarrow> jsstring \<times> jsstring \<times> bool \<Rightarrow> nat \<Rightarrow> jsstring \<times> jsstring \<times> bool" where
  "scanStep prev st c =
     (case st of (l, f, pu) \<Rightarrow>
        if isUpperCode c then (l @ [c], f, True)
        else if isSeparatorCode c then (if pu then (l @ [c], f, False) else (l, f @ [c], False))
        else if pu then (butlast l, f @ [prev, c], False)
        else (l, f @ [c], False))"

fun scan :: "nat \<Rightarrow> jsstring \<times> jsstring \<times> bool \<Rightarrow> jsstring \<Rightarrow> jsstring \<times> jsstring \<times> bool" where
  "scan prev st [] = st"
| "scan prev st (c # cs) = scan c (scanStep prev st c) cs"

lemma slice_butlast: "slice l 0 (int (length l) - 1) = butlast l"
  by (cases "l = []") (simp_all add: slice_def Let_def butlast_conv_take nat_diff_distrib')

lemma slice_two_snoc:
  "slice (q @ x # c # cs) (int (Suc (length q)) - 1) (int (Suc (length q)) + 1) = [x, c]"
  by (simp add: slice_def Let_def)

lemma slice_two:
  assumes "pre \<noteq> []"
  shows "slice (pre @ c # cs) (int (length pre) - 1) (int (length pre) + 1) = [last pre, c]"
proof -
  obtain q x where pre: "pre = q @ [x]"
    using assms by (metis append_butlast_last_id)
  show ?thesis
    unfolding pre using slice_two_snoc [of q x c cs] by simp
qed

lemma dancerStep_scanStep:
  assumes "snd (snd st) \<longrightarrow> pre \<noteq> [] \<and> last pre = prev"
  shows "dancerStep (pre @ c # cs) st (length pre) = scanStep prev st c"
proof -
  obtain l f pu where st: "st = (l, f, pu)" by (cases st)
  show ?thesis
  proof (cases pu)
    case True
    with assms st have "pre \<noteq> []" "last pre = prev" by simp_all
    then have "slice (pre @ c # cs) (int (length pre) - 1) (int (length pre) + 1) = [prev, c]"
      by (simp add: slice_two)
    then show ?thesis by (simp add: dancerStep_def scanStep_def st slice_butlast Let_def)
  next
    case False
    then show ?thesis by (simp add: dancerStep_def scanStep_def st Let_def)
  qed
qed

lemma fold_dancerStep:
  assumes "snd (snd st) \<longrightarrow> pre \<noteq> [] \<and> last pre = prev"
  shows "fold (\<lambda>i st. dancerStep (pre @ cs) st i) [length pre ..< length pre + length cs] st
           = scan prev st cs"
  using assms
proof (induction cs arbitrary: pre st prev)
  case Nil
  then show ?case by simp
next
  case (Cons c cs)
  have upt: "[length pre ..< length pre + length (c # cs)]
               = length pre # [length (pre @ [c]) ..< length (pre @ [c]) + length cs]"
    by (subst upt_rec) simp
  have step: "dancerStep (pre @ c # cs) st (length pre) = scanStep prev st c"
    using Cons.prems by (rule dancerStep_scanStep)
  have ih: "fold (\<lambda>i st. dancerStep ((pre @ [c]) @ cs) st i)
              [length (pre @ [c]) ..< length (pre @ [c]) + length cs] (scanStep prev st c)
            = scan c (scanStep prev st c) cs"
    by (rule Cons.IH) simp
  show ?case
    unfolding upt using step ih by simp
qed

lemma parseDancer_scan: "parseDancer dancer = scan 0 ([], [], False) dancer"
  using fold_dancerStep [of "([], [], False)" "[]" 0 dancer]
  by (simp add: parseDancer_def)

subsection \<open>The display convention\<close>

text \<open>
  The convention of the source pages, as section 4.1 describes it: the surname is written
  in capitals, in one or more words joined by a single blank, apostrophe or hyphen; it is
  followed by a blank and the forename, whose words each start with a capital that lower
  case letters follow, joined by a single separator as well. Lower case letters are the
  Latin-1 ones.
\<close>

definition isLowerCode :: "nat \<Rightarrow> bool" where
  "isLowerCode c = ((97 \<le> c \<and> c \<le> 122) \<or> (223 \<le> c \<and> c \<le> 255 \<and> c \<noteq> 247))"

fun surnameFrom :: "bool \<Rightarrow> jsstring \<Rightarrow> bool" where
  "surnameFrom afterUpper [] = afterUpper"
| "surnameFrom afterUpper (c # cs) =
     (if isUpperCode c then surnameFrom True cs
      else isSeparatorCode c \<and> afterUpper \<and> surnameFrom False cs)"

definition isSurname :: "jsstring \<Rightarrow> bool" where
  "isSurname s = surnameFrom False s"

datatype place = WordStart | AfterCapital | InWord

fun forenameFrom :: "place \<Rightarrow> jsstring \<Rightarrow> bool" where
  "forenameFrom p [] = (p = InWord)"
| "forenameFrom WordStart (c # cs) = (isUpperCode c \<and> forenameFrom AfterCapital cs)"
| "forenameFrom AfterCapital (c # cs) = (isLowerCode c \<and> forenameFrom InWord cs)"
| "forenameFrom InWord (c # cs) =
     (if isLowerCode c then forenameFrom InWord cs
      else isSeparatorCode c \<and> forenameFrom WordStart cs)"

definition isForename :: "jsstring \<Rightarrow> bool" where
  "isForename f = forenameFrom WordStart f"

definition display :: "jsstring \<Rightarrow> jsstring \<Rightarrow> jsstring" where
  "display surname forename = surname @ [32] @ forename"

lemma lower_not_upper: "isLowerCode c \<Longrightarrow> \<not> isUpperCode c"
  by (auto simp: isLowerCode_def isUpperCode_def)

lemma lower_not_separator: "isLowerCode c \<Longrightarrow> \<not> isSeparatorCode c"
  by (auto simp: isLowerCode_def isSeparatorCode_def)

lemma separator_not_upper: "isSeparatorCode c \<Longrightarrow> \<not> isUpperCode c"
  by (auto simp: isSeparatorCode_def isUpperCode_def)

lemma scan_append: "scan prev st (xs @ ys) = scan (last (prev # xs)) (scan prev st xs) ys"
  by (induction xs arbitrary: prev st) simp_all

lemma scan_surname:
  "surnameFrom pu s \<Longrightarrow> scan prev (l, f, pu) s = (l @ s, f, True)"
proof (induction s arbitrary: prev l pu)
  case Nil
  then show ?case by simp
next
  case (Cons c cs)
  show ?case
  proof (cases "isUpperCode c")
    case True
    with Cons.prems have "surnameFrom True cs" by simp
    then have "scan c (l @ [c], f, True) cs = ((l @ [c]) @ cs, f, True)" by (rule Cons.IH)
    with True show ?thesis by (simp add: scanStep_def)
  next
    case False
    with Cons.prems have c: "isSeparatorCode c" "pu" "surnameFrom False cs" by simp_all
    then have "scan c (l @ [c], f, False) cs = ((l @ [c]) @ cs, f, True)" by (intro Cons.IH)
    with False c show ?thesis by (simp add: scanStep_def)
  qed
qed

lemma scan_forename:
  "forenameFrom p cs \<Longrightarrow>
     (p = AfterCapital \<longrightarrow> scan u (l @ [u], f, True) cs = (l, f @ u # cs, False)) \<and>
     (p \<noteq> AfterCapital \<longrightarrow> scan prev (l, f, False) cs = (l, f @ cs, False))"
proof (induction p cs arbitrary: u l f prev rule: forenameFrom.induct)
  case (1 p)
  then show ?case by simp
next
  case (2 c cs)
  then have c: "isUpperCode c" and rest: "forenameFrom AfterCapital cs" by simp_all
  from "2.IH" [OF rest, of c l f] have "scan c (l @ [c], f, True) cs = (l, f @ c # cs, False)"
    by simp
  with c show ?case by (simp add: scanStep_def)
next
  case (3 c cs)
  then have c: "isLowerCode c" and rest: "forenameFrom InWord cs" by simp_all
  from "3.IH" [OF rest, of _ l "f @ [u, c]" c]
  have "scan c (l, f @ [u, c], False) cs = (l, (f @ [u, c]) @ cs, False)" by simp
  with c show ?case by (simp add: scanStep_def lower_not_upper lower_not_separator)
next
  case (4 c cs)
  show ?case
  proof (cases "isLowerCode c")
    case True
    with "4.prems" have rest: "forenameFrom InWord cs" by simp
    from "4.IH"(1) [OF True rest, of _ l "f @ [c]" c]
    have "scan c (l, f @ [c], False) cs = (l, (f @ [c]) @ cs, False)" by simp
    with True show ?thesis by (simp add: scanStep_def lower_not_upper lower_not_separator)
  next
    case False
    with "4.prems" have c: "isSeparatorCode c" and rest: "forenameFrom WordStart cs" by simp_all
    from "4.IH"(2) [OF False rest, of _ l "f @ [c]" c]
    have "scan c (l, f @ [c], False) cs = (l, (f @ [c]) @ cs, False)" by simp
    with c show ?thesis by (simp add: scanStep_def separator_not_upper)
  qed
qed

lemma parseDancer_display:
  assumes "isSurname s" and "isForename f"
  shows "parseDancer (display s f) = (s @ [32], f, False)"
proof -
  have a: "scan 0 ([], [], False) s = (s, [], True)"
    using assms(1) scan_surname [of False s 0 "[]" "[]"] by (simp add: isSurname_def)
  have b: "scan 32 (s @ [32], [], False) f = (s @ [32], f, False)"
    using assms(2) scan_forename [of WordStart f _ "s @ [32]" "[]" 32] by (simp add: isForename_def)
  have "scan 0 ([], [], False) (s @ 32 # f) = scan 32 (scanStep (last (0 # s)) (s, [], True) 32) f"
    by (simp only: scan_append a scan.simps)
  also have "scanStep (last (0 # s)) (s, [], True) 32 = (s @ [32], [], False)"
    by (simp add: scanStep_def isUpperCode_def isSeparatorCode_def)
  finally show ?thesis by (simp add: parseDancer_scan display_def b)
qed


subsection \<open>Names without markup\<close>

lemma surnameFrom_chars: "surnameFrom pu s \<Longrightarrow> c \<in> set s \<Longrightarrow> isUpperCode c \<or> isSeparatorCode c"
  by (induction s arbitrary: pu) (auto split: if_splits)

lemma forenameFrom_chars:
  "forenameFrom p s \<Longrightarrow> c \<in> set s \<Longrightarrow> isUpperCode c \<or> isSeparatorCode c \<or> isLowerCode c"
  by (induction p s rule: forenameFrom.induct) (auto split: if_splits)

lemma display_no_tag:
  assumes "isSurname s" and "isForename f"
  shows "60 \<notin> set (display s f)"
proof
  assume "60 \<in> set (display s f)"
  then have "60 \<in> set s \<or> 60 \<in> set f" by (simp add: display_def)
  then have "isUpperCode 60 \<or> isSeparatorCode 60 \<or> isLowerCode 60"
    using assms surnameFrom_chars forenameFrom_chars
    unfolding isSurname_def isForename_def by blast
  then show False by (simp add: isUpperCode_def isSeparatorCode_def isLowerCode_def)
qed

lemma stripTagsFrom_plain: "60 \<notin> set s \<Longrightarrow> stripTagsFrom s = s"
  by (induction s) simp_all

lemma cut_absent: "x \<notin> set s \<Longrightarrow> cut (x # p) s = None"
  by (induction s) auto

lemma cut_first: "x \<notin> set b \<Longrightarrow> cut (x # p) (b @ (x # p) @ a) = Some (b, a)"
  by (induction b) auto

lemma splitOn_none: "p \<noteq> [] \<Longrightarrow> cut p s = None \<Longrightarrow> splitOn p s = [s]"
  by (subst splitOn.simps) simp

lemma splitOn_some: "p \<noteq> [] \<Longrightarrow> cut p s = Some (b, a) \<Longrightarrow> splitOn p s = b # splitOn p a"
  by (subst splitOn.simps) simp

lemma js_br: "js ''<br>'' = [60, 98, 114, 62]"
  by (simp add: js_def)

lemma splitOn_two:
  assumes "60 \<notin> set d1" and "60 \<notin> set d2"
  shows "splitOn (js ''<br>'') (d1 @ js ''<br>'' @ d2) = [d1, d2]"
proof -
  have "cut (js ''<br>'') (d1 @ js ''<br>'' @ d2) = Some (d1, d2)"
    unfolding js_br using assms(1) by (rule cut_first)
  moreover have "cut (js ''<br>'') d2 = None"
    unfolding js_br using assms(2) by (rule cut_absent)
  ultimately show ?thesis by (simp add: splitOn_some splitOn_none js_br)
qed

lemma dancerName_display:
  assumes "isSurname s" and "isForename f"
  shows "dancerName ra (display s f) = ra f @ [32] @ ra (s @ [32])"
proof -
  have "stripTags (Some (display s f)) = display s f"
    using display_no_tag [OF assms] by (simp add: stripTags_def makeString_def stripTagsFrom_plain)
  then show ?thesis by (simp add: dancerName_def parseDancer_display [OF assms])
qed

subsection \<open>Title case of two words\<close>

lemma toUpperCase_Cons: "toUpperCase (c # cs) = upperUnits c @ toUpperCase cs"
  by (simp add: toUpperCase_def)

lemma upperUnits_space: "upperUnits 32 = [32]"
  by (simp add: upperUnits_def)

lemma space_is_white: "isWhiteSpace 32"
  by (simp add: isWhiteSpace_def)

lemma hyphen_not_white: "\<not> isWhiteSpace 45"
  by (simp add: isWhiteSpace_def)

lemma titleizeFrom_white: "isWhiteSpace c \<Longrightarrow> titleizeFrom True (c # cs) = titleizeFrom False (c # cs)"
  by (cases cs) simp_all

lemma titleizeFrom_space: "titleizeFrom False (32 # b) = 32 # titleizeFrom True b"
proof (cases b)
  case Nil
  then show ?thesis by simp
next
  case (Cons d ds)
  show ?thesis
  proof (cases "isWhiteSpace d")
    case True
    then show ?thesis by (simp add: Cons titleizeFrom_white)
  next
    case False
    then show ?thesis
      by (cases ds) (simp_all add: Cons space_is_white toUpperCase_Cons upperUnits_space)
  qed
qed

lemma titleizeFrom_two:
  "titleizeFrom start (a @ 32 # b) = titleizeFrom start a @ 32 # titleizeFrom True b"
proof (induction start a rule: titleizeFrom.induct)
  case (1 start)
  show ?case
    using titleizeFrom_white [OF space_is_white, of b] titleizeFrom_space [of b]
    by (cases start) simp_all
next
  case (2 start c)
  show ?case by (simp add: space_is_white titleizeFrom_space)
next
  case (3 start c d ds)
  then show ?case by (simp add: hyphen_not_white)
qed

lemma titleize_two:
  "titleize (Some (a @ [32] @ b)) = titleize (Some a) @ [32] @ titleize (Some b)"
  by (simp add: titleize_def makeString_def toLowerCase_def titleizeFrom_two)

lemma trim_trailing_space: "trim (x @ [32]) = trim x"
proof (cases "\<forall>c \<in> set x. isWhiteSpace c")
  case True
  then have a: "dropWhile isWhiteSpace x = []" by (simp add: dropWhile_eq_Nil_conv)
  from True have b: "dropWhile isWhiteSpace (x @ [32]) = []"
    by (simp add: dropWhile_eq_Nil_conv space_is_white)
  show ?thesis unfolding trim_def a b by simp
next
  case False
  then have "dropWhile isWhiteSpace (x @ [32]) = dropWhile isWhiteSpace x @ [32]"
    by (simp add: dropWhile_append)
  then show ?thesis unfolding trim_def by (simp add: space_is_white)
qed

lemma removeAccents_trailing_space: "removeAccents (x @ [32]) = removeAccents x"
  by (simp add: removeAccents_def trim_trailing_space)

subsection \<open>Two dancers, one dancer\<close>

lemma cleanNames_pieces:
  assumes "\<not> includesStr coupleInconnu (toLowerCase names)"
  shows "cleanNames ft ra (Some names) =
           Inr (titleizeFp ft (nth_opt (map (dancerName ra) (splitOn (js ''<br>'') names)) 0) @ js '' - '' @
                titleizeFp ft (nth_opt (map (dancerName ra) (splitOn (js ''<br>'') names)) 1))"
  using assms by (simp add: cleanNames_def Let_def)

lemma cleanNames_couple:
  assumes "isSurname s1" "isForename f1" "isSurname s2" "isForename f2"
    and "\<not> includesStr coupleInconnu (toLowerCase (display s1 f1 @ js ''<br>'' @ display s2 f2))"
  shows "cleanNames ft ra (Some (display s1 f1 @ js ''<br>'' @ display s2 f2)) =
           Inr (titleize (Some (ra f1 @ [32] @ ra (s1 @ [32]))) @ js '' - '' @
                titleize (Some (ra f2 @ [32] @ ra (s2 @ [32]))))"
proof -
  have "splitOn (js ''<br>'') (display s1 f1 @ js ''<br>'' @ display s2 f2) = [display s1 f1, display s2 f2]"
    using assms(1-4) by (intro splitOn_two display_no_tag)
  then show ?thesis
    using assms by (simp add: cleanNames_pieces nth_opt_def titleizeFp_def dancerName_display)
qed

lemma cleanNames_single:
  assumes "\<not> includesStr (js ''<br>'') names"
    and "\<not> includesStr coupleInconnu (toLowerCase names)"
  shows "cleanNames ft ra (Some names) = Inr (titleize (Some (dancerName ra names)) @ js '' - '' @ ft)"
proof -
  have "cut (js ''<br>'') names = None"
    using assms(1) by (cases "cut (js ''<br>'') names") (simp_all add: includesStr_def)
  then have "splitOn (js ''<br>'') names = [names]" by (simp add: splitOn_none js_br)
  then show ?thesis
    using assms(2) by (simp add: cleanNames_pieces nth_opt_def titleizeFp_def)
qed


lemma cleanNames_inconnu:
  "includesStr coupleInconnu (toLowerCase names) \<Longrightarrow> cleanNames ft ra (Some names) = Inr coupleInconnu"
  by (simp add: cleanNames_def)

lemmas name_eval =
  js_def display_def isSurname_def isForename_def isUpperCode_def isLowerCode_def
  isSeparatorCode_def removeAccents_def trim_def isWhiteSpace_def stripDiacritic_def
  titleize_def toLowerCase_def toUpperCase_def upperUnits_def makeString_def

text \<open>
  Claim C3 (as amended). Take two dancers written in the display convention and joined
  by \<open><br>\<close>, such that the lowered input does not contain \<open>couple inconnu\<close>. For each
  dancer the scan recovers the forename as it stands and the surname followed by the blank
  that separated the two, and \<open>cleanNames\<close> returns the title case of
  \<open>removeAccents forename\<close>, a blank and \<open>removeAccents (surname + blank)\<close>, the two
  dancers joined by \<open>" - "\<close>. When \<open>removeAccents\<close> drops that trailing blank the result
  is \<open>Forename Surname - Forename Surname\<close>, each part in title case and without accents;
  with the \<open>removeAccents\<close> modelled above, \<open>DUPONT Jean<br>MARTIN Marie\<close> becomes
  \<open>Jean Dupont - Marie Martin\<close>.
\<close>

theorem cleanNames_round_trip:
  assumes "isSurname s1" "isForename f1" "isSurname s2" "isForename f2"
    and "\<not> includesStr coupleInconnu (toLowerCase (display s1 f1 @ js ''<br>'' @ display s2 f2))"
  shows "parseDancer (display s1 f1) = (s1 @ [32], f1, False)
       \<and> parseDancer (display s2 f2) = (s2 @ [32], f2, False)
       \<and> cleanNames ft ra (Some (display s1 f1 @ js ''<br>'' @ display s2 f2)) =
           Inr (titleize (Some (ra f1 @ [32] @ ra (s1 @ [32]))) @ js '' - '' @
                titleize (Some (ra f2 @ [32] @ ra (s2 @ [32]))))
       \<and> ((\<forall>x. ra (x @ [32]) = ra x) \<longrightarrow>
            cleanNames ft ra (Some (display s1 f1 @ js ''<br>'' @ display s2 f2)) =
              Inr (titleize (Some (ra f1)) @ [32] @ titleize (Some (ra s1)) @ js '' - '' @
                   titleize (Some (ra f2)) @ [32] @ titleize (Some (ra s2))))"
proof -
  have p1: "parseDancer (display s1 f1) = (s1 @ [32], f1, False)"
    using assms(1,2) by (rule parseDancer_display)
  have p2: "parseDancer (display s2 f2) = (s2 @ [32], f2, False)"
    using assms(3,4) by (rule parseDancer_display)
  have c: "cleanNames ft ra (Some (display s1 f1 @ js ''<br>'' @ display s2 f2)) =
           Inr (titleize (Some (ra f1 @ [32] @ ra (s1 @ [32]))) @ js '' - '' @
                titleize (Some (ra f2 @ [32] @ ra (s2 @ [32]))))"
    using assms by (rule cleanNames_couple)
  have t: "(\<forall>x. ra (x @ [32]) = ra x) \<longrightarrow>
            cleanNames ft ra (Some (display s1 f1 @ js ''<br>'' @ display s2 f2)) =
              Inr (titleize (Some (ra f1)) @ [32] @ titleize (Some (ra s1)) @ js '' - '' @
                   titleize (Some (ra f2)) @ [32] @ titleize (Some (ra s2)))"
  proof
    assume "\<forall>x. ra (x @ [32]) = ra x"
    then have "ra (s1 @ [32]) = ra s1" "ra (s2 @ [32]) = ra s2" by simp_all
    then show "cleanNames ft ra (Some (display s1 f1 @ js ''<br>'' @ display s2 f2)) =
              Inr (titleize (Some (ra f1)) @ [32] @ titleize (Some (ra s1)) @ js '' - '' @
                   titleize (Some (ra f2)) @ [32] @ titleize (Some (ra s2)))"
      by (simp only: c titleize_two append_assoc)
  qed
  from p1 p2 c t show ?thesis by (intro conjI)
qed

theorem cleanNames_round_trip_witness:
  "cleanNames functionText removeAccents (Some (js ''DUPONT Jean<br>MARTIN Marie''))
     = Inr (js ''Jean Dupont - Marie Martin'')"
proof -
  have s1: "isSurname (js ''DUPONT'')" and f1: "isForename (js ''Jean'')"
    and s2: "isSurname (js ''MARTIN'')" and f2: "isForename (js ''Marie'')"
    by (simp_all add: name_eval)
  have inp: "display (js ''DUPONT'') (js ''Jean'') @ js ''<br>'' @ display (js ''MARTIN'') (js ''Marie'')
               = js ''DUPONT Jean<br>MARTIN Marie''"
    by (simp add: js_def display_def)
  have ns: "\<not> includesStr coupleInconnu (toLowerCase (js ''DUPONT Jean<br>MARTIN Marie''))"
    by (simp add: includesStr_def coupleInconnu_def toLowerCase_def js_def)
  have t: "titleize (Some (removeAccents (js ''Jean''))) = js ''Jean''"
    "titleize (Some (removeAccents (js ''DUPONT''))) = js ''Dupont''"
    "titleize (Some (removeAccents (js ''Marie''))) = js ''Marie''"
    "titleize (Some (removeAccents (js ''MARTIN''))) = js ''Martin''"
    by (simp_all add: name_eval)
  note rt = cleanNames_round_trip [OF s1 f1 s2 f2, of functionText removeAccents, unfolded inp, OF ns]
  then have "(\<forall>x. removeAccents (x @ [32]) = removeAccents x) \<longrightarrow>
      cleanNames functionText removeAccents (Some (js ''DUPONT Jean<br>MARTIN Marie'')) =
        Inr (titleize (Some (removeAccents (js ''Jean''))) @ [32] @
             titleize (Some (removeAccents (js ''DUPONT''))) @ js '' - '' @
             titleize (Some (removeAccents (js ''Marie''))) @ [32] @
             titleize (Some (removeAccents (js ''MARTIN''))))"
    by (elim conjE)
  then have "cleanNames functionText removeAccents (Some (js ''DUPONT Jean<br>MARTIN Marie'')) =
        Inr (js ''Jean'' @ [32] @ js ''Dupont'' @ js '' - '' @ js ''Marie'' @ [32] @ js ''Martin'')"
    unfolding t using removeAccents_trailing_space by blast
  then show ?thesis by (simp add: js_def)
qed

text \<open>
  Without the proviso the pair is not recovered: surname \<open>COUPLE\<close> and forename \<open>Inconnu\<close>
  follow the convention, and the sentinel is returned for them.
\<close>

theorem cleanNames_round_trip_sentinel:
  "isSurname (js ''COUPLE'') \<and> isForename (js ''Inconnu'')
   \<and> isSurname (js ''MARTIN'') \<and> isForename (js ''Marie'')
   \<and> cleanNames functionText removeAccents
        (Some (display (js ''COUPLE'') (js ''Inconnu'') @ js ''<br>'' @ display (js ''MARTIN'') (js ''Marie'')))
       = Inr (js ''couple inconnu'')"
proof -
  have "includesStr coupleInconnu
          (toLowerCase (display (js ''COUPLE'') (js ''Inconnu'') @ js ''<br>'' @ display (js ''MARTIN'') (js ''Marie'')))"
    by (simp add: includesStr_def coupleInconnu_def toLowerCase_def js_def display_def)
  then have "cleanNames functionText removeAccents
        (Some (display (js ''COUPLE'') (js ''Inconnu'') @ js ''<br>'' @ display (js ''MARTIN'') (js ''Marie'')))
       = Inr (js ''couple inconnu'')"
    by (simp add: cleanNames_inconnu coupleInconnu_def)
  moreover have "isSurname (js ''COUPLE'')" "isForename (js ''Inconnu'')"
    "isSurname (js ''MARTIN'')" "isForename (js ''Marie'')"
    by (simp_all add: name_eval)
  ultimately show ?thesis by (intro conjI)
qed

text \<open>
  Claim C9 asks for a failure when the input holds one dancer only. The code does not
  fail there: an input without \<open><br>\<close> is one piece, \<open>results[1]\<close> is \<open>undefined\<close>, and
  the curried \<open>titleize\<close> answers with a function. \<open>cleanNames\<close> returns the sentinel when
  the input contains it, and otherwise the dancer's name, \<open>" - "\<close> and the source text of
  that function.
\<close>

theorem cleanNames_single_dancer:
  assumes "\<not> includesStr (js ''<br>'') names"
  shows "cleanNames ft ra (Some names) =
           Inr (if includesStr coupleInconnu (toLowerCase names) then coupleInconnu
                else titleize (Some (dancerName ra names)) @ js '' - '' @ ft)"
  using assms by (simp add: cleanNames_inconnu cleanNames_single)

theorem cleanNames_single_dancer_witness:
  "cleanNames functionText removeAccents (Some (js ''MARTIN Marie''))
     = Inr (js ''Marie Martin - '' @ functionText)"
proof -
  have nb: "\<not> includesStr (js ''<br>'') (js ''MARTIN Marie'')"
    and ns: "\<not> includesStr coupleInconnu (toLowerCase (js ''MARTIN Marie''))"
    by (simp_all add: includesStr_def coupleInconnu_def toLowerCase_def js_def)
  have "dancerName removeAccents (display (js ''MARTIN'') (js ''Marie''))
          = removeAccents (js ''Marie'') @ [32] @ removeAccents (js ''MARTIN'' @ [32])"
    by (rule dancerName_display) (simp_all add: name_eval)
  then have d: "dancerName removeAccents (js ''MARTIN Marie'') = js ''Marie MARTIN''"
    by (simp add: name_eval)
  have t: "titleize (Some (js ''Marie MARTIN'')) = js ''Marie Martin''"
    by (simp add: name_eval)
  have j: "js ''Marie Martin'' @ js '' - '' @ functionText = js ''Marie Martin - '' @ functionText"
    by (simp add: js_def)
  show ?thesis
    using cleanNames_single_dancer [OF nb, of functionText removeAccents] ns
    by (simp add: d t j)
qed

section \<open>Ranking extraction\<close>

text \<open>
  \<open>parseInt\<close> without a radix: leading white space, a sign, then hexadecimal digits after
  \<open>0x\<close> and decimal digits otherwise, as far as they go; \<open>None\<close> is \<open>NaN\<close>. The value is
  kept as an integer (a JavaScript number rounds beyond 53 bits).
\<close>

definition digitValue :: "nat \<Rightarrow> nat \<Rightarrow> nat option" where
  "digitValue radix c =
     (let v = (if 48 \<le> c \<and> c \<le> 57 then c - 48
               else if 97 \<le> c \<and> c \<le> 122 then c - 87
               else if 65 \<le> c \<and> c \<le> 90 then c - 55
               else radix)
      in if v < radix then Some v else None)"

definition parseDigits :: "nat \<Rightarrow> jsstring \<Rightarrow> int option" where
  "parseDigits radix s =
     (let ds = takeWhile (\<lambda>c. digitValue radix c \<noteq> None) s
      in if ds = [] then None
         else Some (foldl (\<lambda>acc c. acc * int radix + int (case digitValue radix c of Some v \<Rightarrow> v | None \<Rightarrow> 0)) 0 ds))"

definition parseInt :: "jsstring \<Rightarrow> int option" where
  "parseInt s =
     (let t = dropWhile isWhiteSpace s;
          negative = (take 1 t = [45]);
          u = (if take 1 t = [45] \<or> take 1 t = [43] then drop 1 t else t);
          magnitude = (if take 2 u = [48, 120] \<or> take 2 u = [48, 88]
                       then parseDigits 16 (drop 2 u) else parseDigits 10 u)
      in map_option (\<lambda>m. if negative then - m else m) magnitude)"

text \<open>
  A result row as the loop reads it: the markup of its third cell (\<open>html()\<close> is \<open>null\<close>
  when there is none) and the text of its first cell. \<open>results\<close> is an object created by
  \<open>{}\<close>, kept as the list of its own entries in insertion order; \<open>names in results\<close> also
  finds the keys it inherits from \<open>Object.prototype\<close>.
\<close>

record row =
  namesHtml :: "jsstring option"
  rankText :: jsstring

definition objectPrototypeKeys :: "jsstring list" where
  "objectPrototypeKeys =
     [js ''constructor'', js ''__defineGetter__'', js ''__defineSetter__'', js ''hasOwnProperty'',
      js ''__lookupGetter__'', js ''__lookupSetter__'', js ''isPrototypeOf'',
      js ''propertyIsEnumerable'', js ''toString'', js ''valueOf'', js ''__proto__'',
      js ''toLocaleString'']"

definition hasKey :: "jsstring \<Rightarrow> (jsstring \<times> 'v) list \<Rightarrow> bool" where
  "hasKey k obj = (k \<in> fst ` set obj \<or> k \<in> set objectPrototypeKeys)"

text \<open>
  The two nested \<open>each\<close> loops of \<open>extractRanking\<close>: heats in document order with their
  index \<open>i\<close>, rows within a heat. A failure of \<open>cleanNames\<close> is thrown again with the
  title and \<open>i * 2\<close>, which ends both loops.
\<close>

fun rankRows ::
  "jsstring \<Rightarrow> (jsstring \<Rightarrow> jsstring) \<Rightarrow> jsstring \<Rightarrow> nat \<Rightarrow> row list \<Rightarrow> (jsstring \<times> int option) list
     \<Rightarrow> error + (jsstring \<times> int option) list" where
  "rankRows ft ra title i [] results = Inr results"
| "rankRows ft ra title i (r # rows) results =
     (case cleanNames ft ra (namesHtml r) of
        Inl exc \<Rightarrow> Inl (RankingParseError title (i * 2) exc)
      | Inr names \<Rightarrow>
          rankRows ft ra title i rows
            (if hasKey names results then results else results @ [(names, parseInt (rankText r))]))"

fun rankHeats ::
  "jsstring \<Rightarrow> (jsstring \<Rightarrow> jsstring) \<Rightarrow> jsstring \<Rightarrow> nat \<Rightarrow> row list list \<Rightarrow> (jsstring \<times> int option) list
     \<Rightarrow> error + (jsstring \<times> int option) list" where
  "rankHeats ft ra title i [] results = Inr results"
| "rankHeats ft ra title i (heat # heats) results =
     (case rankRows ft ra title i heat results of
        Inl e \<Rightarrow> Inl e
      | Inr results' \<Rightarrow> rankHeats ft ra title (i + 1) heats results')"


text \<open>The key and the entry a row stands for, and the object after a sequence of entries.\<close>

definition nameOf :: "jsstring \<Rightarrow> (jsstring \<Rightarrow> jsstring) \<Rightarrow> row \<Rightarrow> jsstring" where
  "nameOf ft ra r = (case cleanNames ft ra (namesHtml r) of Inr names \<Rightarrow> names | Inl e \<Rightarrow> [])"

definition entries :: "jsstring \<Rightarrow> (jsstring \<Rightarrow> jsstring) \<Rightarrow> row list \<Rightarrow> (jsstring \<times> int option) list" where
  "entries ft ra rows = map (\<lambda>r. (nameOf ft ra r, parseInt (rankText r))) rows"

fun addAll :: "(jsstring \<times> 'v) list \<Rightarrow> (jsstring \<times> 'v) list \<Rightarrow> (jsstring \<times> 'v) list" where
  "addAll acc [] = acc"
| "addAll acc ((k, v) # es) = addAll (if hasKey k acc then acc else acc @ [(k, v)]) es"

lemma cleanNames_has_blank: "cleanNames ft ra x = Inr out \<Longrightarrow> 32 \<in> set out"
  by (auto simp: cleanNames_def coupleInconnu_def js_def Let_def split: option.splits if_splits)

lemma prototype_keys_no_blank: "k \<in> set objectPrototypeKeys \<Longrightarrow> 32 \<notin> set k"
  by (auto simp: objectPrototypeKeys_def js_def)

lemma rankRows_addAll:
  "rankRows ft ra title i rows acc = Inr res \<Longrightarrow>
     res = addAll acc (entries ft ra rows) \<and> (\<forall>r \<in> set rows. cleanNames ft ra (namesHtml r) = Inr (nameOf ft ra r))"
proof (induction rows arbitrary: acc)
  case Nil
  then show ?case by (simp add: entries_def)
next
  case (Cons r rows)
  from Cons.prems obtain names where n: "cleanNames ft ra (namesHtml r) = Inr names"
    by (auto split: sum.splits)
  then have nn: "nameOf ft ra r = names" by (simp add: nameOf_def)
  from Cons.prems n have
    "rankRows ft ra title i rows (if hasKey names acc then acc else acc @ [(names, parseInt (rankText r))]) = Inr res"
    by simp
  from Cons.IH [OF this] n nn show ?case by (simp add: entries_def)
qed

lemma addAll_append: "addAll acc (xs @ ys) = addAll (addAll acc xs) ys"
  by (induction xs arbitrary: acc) auto

lemma rankHeats_addAll:
  "rankHeats ft ra title i heats acc = Inr res \<Longrightarrow>
     res = addAll acc (entries ft ra (concat heats)) \<and>
     (\<forall>r \<in> set (concat heats). cleanNames ft ra (namesHtml r) = Inr (nameOf ft ra r))"
proof (induction heats arbitrary: acc i)
  case Nil
  then show ?case by (simp add: entries_def)
next
  case (Cons heat heats)
  from Cons.prems obtain mid where m: "rankRows ft ra title i heat acc = Inr mid"
    and rest: "rankHeats ft ra title (i + 1) heats mid = Inr res"
    by (auto split: sum.splits)
  from rankRows_addAll [OF m] Cons.IH [OF rest] show ?case
    by (auto simp: entries_def addAll_append)
qed

lemma addAll_keys:
  "distinct (map fst acc) \<Longrightarrow> distinct (map fst (addAll acc es))"
  by (induction acc es rule: addAll.induct) (auto simp: hasKey_def)

lemma addAll_map_of:
  assumes "\<forall>e \<in> set es. fst e \<notin> set objectPrototypeKeys"
  shows "map_of (addAll acc es) k = (case map_of acc k of Some v \<Rightarrow> Some v | None \<Rightarrow> map_of es k)"
  using assms
proof (induction acc es rule: addAll.induct)
  case (1 acc)
  then show ?case by (simp split: option.splits)
next
  case (2 acc k' v es)
  then have ih: "map_of (addAll (if hasKey k' acc then acc else acc @ [(k', v)]) es) k =
       (case map_of (if hasKey k' acc then acc else acc @ [(k', v)]) k of Some v \<Rightarrow> Some v | None \<Rightarrow> map_of es k)"
    by simp
  from "2.prems" have np: "k' \<notin> set objectPrototypeKeys" by simp
  show ?case
  proof (cases "hasKey k' acc")
    case True
    with np have "k' \<in> fst ` set acc" by (simp add: hasKey_def)
    then have "map_of acc k' \<noteq> None" by (simp add: map_of_eq_None_iff)
    with True ih show ?thesis by (auto split: option.splits)
  next
    case False
    then have "k' \<notin> fst ` set acc" by (simp add: hasKey_def)
    then have "map_of acc k' = None" by (simp add: map_of_eq_None_iff)
    with False ih show ?thesis by (auto simp: map_add_def split: option.splits)
  qed
qed

lemma map_of_first:
  "i < length es \<Longrightarrow> \<forall>j<i. fst (es ! j) \<noteq> fst (es ! i) \<Longrightarrow>
     map_of es (fst (es ! i)) = Some (snd (es ! i))"
proof (induction es arbitrary: i)
  case Nil
  then show ?case by simp
next
  case (Cons e es)
  show ?case
  proof (cases i)
    case 0
    then show ?thesis by (cases e) simp
  next
    case (Suc n)
    with Cons.prems have "fst e \<noteq> fst (es ! n)" by auto
    moreover from Suc Cons.prems have "\<forall>j<n. fst (es ! j) \<noteq> fst (es ! n)" by auto
    moreover from Suc Cons.prems have "n < length es" by simp
    ultimately show ?thesis using Cons.IH [of n] Suc by (cases e) auto
  qed
qed


text \<open>
  The network is a transport with a state of its own; \<open>request\<close> records the address it
  asks for. The page queries of \<open>cheerio\<close> (after \<open>replaceUnallowed\<close> and the repair of
  the markup) are parameters: the text of \<open>h3\<close> and the rows of each \<open>.portlet\<close>.
\<close>

record 'n world =
  net :: 'n
  fetched :: "jsstring list"

definition request ::
  "(jsstring \<Rightarrow> 'n \<Rightarrow> (error + jsstring) \<times> 'n) \<Rightarrow> jsstring \<Rightarrow> 'n world
     \<Rightarrow> (error + jsstring) \<times> 'n world" where
  "request transport url w =
     (case transport url (net w) of
        (answer, n) \<Rightarrow> (answer, \<lparr>net = n, fetched = fetched w @ [url]\<rparr>))"

text \<open>A transport that answers every request with an empty page, and a world to start from.\<close>

definition emptyPage :: "jsstring \<Rightarrow> unit \<Rightarrow> (error + jsstring) \<times> unit" where
  "emptyPage url n = (Inr [], n)"

definition offline :: "unit world" where
  "offline = \<lparr>net = (), fetched = []\<rparr>"

record contest =
  title :: jsstring
  results :: "(jsstring \<times> int option) list"

definition extractRanking ::
  "(jsstring \<Rightarrow> 'n \<Rightarrow> (error + jsstring) \<times> 'n) \<Rightarrow> (jsstring \<Rightarrow> jsstring) \<Rightarrow> (jsstring \<Rightarrow> row list list)
     \<Rightarrow> jsstring \<Rightarrow> (jsstring \<Rightarrow> jsstring) \<Rightarrow> jsstring \<Rightarrow> 'n world \<Rightarrow> (error + contest) \<times> 'n world" where
  "extractRanking transport h3Text portlets ft ra url w =
     (case request transport url w of
        (Inl e, w') \<Rightarrow> (Inl e, w')
      | (Inr bodyRaw, w') \<Rightarrow>
          (let t = cleanContest (h3Text bodyRaw) in
           case rankHeats ft ra t 0 (portlets bodyRaw) [] of
             Inl e \<Rightarrow> (Inl e, w')
           | Inr res \<Rightarrow> (Inr \<lparr>title = t, results = res\<rparr>, w')))"

lemma rankHeats_entries:
  assumes "rankHeats ft ra t i heats [] = Inr res"
  shows "distinct (map fst res)" and "map_of res = map_of (entries ft ra (concat heats))"
proof -
  from rankHeats_addAll [OF assms] have res: "res = addAll [] (entries ft ra (concat heats))"
    and ok: "\<forall>r \<in> set (concat heats). cleanNames ft ra (namesHtml r) = Inr (nameOf ft ra r)"
    by simp_all
  show "distinct (map fst res)" unfolding res by (rule addAll_keys) simp
  have "\<forall>e \<in> set (entries ft ra (concat heats)). fst e \<notin> set objectPrototypeKeys"
  proof
    fix e assume "e \<in> set (entries ft ra (concat heats))"
    then obtain r where r: "r \<in> set (concat heats)" and e: "fst e = nameOf ft ra r"
      by (auto simp: entries_def simp del: set_concat)
    from ok r have "32 \<in> set (nameOf ft ra r)" by (metis cleanNames_has_blank)
    with e show "fst e \<notin> set objectPrototypeKeys" using prototype_keys_no_blank by auto
  qed
  then have "\<And>k. map_of res k = map_of (entries ft ra (concat heats)) k"
    unfolding res by (simp add: addAll_map_of)
  then show "map_of res = map_of (entries ft ra (concat heats))" by (rule ext)
qed

lemma extractRanking_rankHeats:
  assumes "request transport url w = (Inr body, w')"
    and "extractRanking transport h3Text portlets ft ra url w = (Inr c, w'')"
  shows "rankHeats ft ra (cleanContest (h3Text body)) 0 (portlets body) [] = Inr (results c)"
  using assms by (auto simp: extractRanking_def Let_def split: sum.splits)

text \<open>
  Claim C5. When \<open>extractRanking\<close> succeeds on a page, the keys of its \<open>results\<close> are
  unique, every row has a name, and for every row \<open>i\<close> of the page in traversal order (the rows of the first
  heat, the final, then those of the next heats) the rank recorded under its name is the
  rank of the first row \<open>j\<close> that carries this name: the occurrence processed first wins,
  every later one is ignored.
\<close>

theorem extractRanking_first_seen:
  assumes "request transport url w = (Inr body, w')"
    and "extractRanking transport h3Text portlets ft ra url w = (Inr c, w'')"
  shows "distinct (map fst (results c))
       \<and> (\<forall>r \<in> set (concat (portlets body)). cleanNames ft ra (namesHtml r) = Inr (nameOf ft ra r))
       \<and> (\<forall>i < length (concat (portlets body)). \<forall>j \<le> i.
            nameOf ft ra (concat (portlets body) ! j) = nameOf ft ra (concat (portlets body) ! i)
            \<and> (\<forall>j' < j. nameOf ft ra (concat (portlets body) ! j') \<noteq> nameOf ft ra (concat (portlets body) ! j))
            \<longrightarrow> map_of (results c) (nameOf ft ra (concat (portlets body) ! i))
                  = Some (parseInt (rankText (concat (portlets body) ! j))))"
proof (intro conjI allI impI)
  note run = extractRanking_rankHeats [OF assms]
  show "distinct (map fst (results c))" using run by (rule rankHeats_entries)
  show "\<forall>r \<in> set (concat (portlets body)). cleanNames ft ra (namesHtml r) = Inr (nameOf ft ra r)"
    using rankHeats_addAll [OF run] by (rule conjunct2)
  fix i j
  assume i: "i < length (concat (portlets body))" and j: "j \<le> i"
    and first: "nameOf ft ra (concat (portlets body) ! j) = nameOf ft ra (concat (portlets body) ! i)
            \<and> (\<forall>j' < j. nameOf ft ra (concat (portlets body) ! j') \<noteq> nameOf ft ra (concat (portlets body) ! j))"
  let ?rows = "concat (portlets body)"
  let ?es = "entries ft ra ?rows"
  from i j have jl: "j < length ?es" by (simp add: entries_def)
  from i j first have "\<forall>j' < j. fst (?es ! j') \<noteq> fst (?es ! j)" by (auto simp: entries_def)
  with jl have "map_of ?es (fst (?es ! j)) = Some (snd (?es ! j))" by (rule map_of_first)
  with jl first have "map_of ?es (nameOf ft ra (?rows ! i)) = Some (parseInt (rankText (?rows ! j)))"
    by (simp add: entries_def)
  then show "map_of (results c) (nameOf ft ra (?rows ! i)) = Some (parseInt (rankText (?rows ! j)))"
    using rankHeats_entries(2) [OF run] by simp
qed

lemmas rank_eval = parseInt_def parseDigits_def digitValue_def isWhiteSpace_def js_def Let_def

lemma cleanNames_dupont_martin:
  "cleanNames ft removeAccents (Some (js ''DUPONT Jean<br>MARTIN Marie'')) = Inr (js ''Jean Dupont - Marie Martin'')"
proof -
  have "cleanNames ft removeAccents
          (Some (display (js ''DUPONT'') (js ''Jean'') @ js ''<br>'' @ display (js ''MARTIN'') (js ''Marie'')))
        = Inr (titleize (Some (removeAccents (js ''Jean'') @ [32] @ removeAccents (js ''DUPONT'' @ [32]))) @
               js '' - '' @
               titleize (Some (removeAccents (js ''Marie'') @ [32] @ removeAccents (js ''MARTIN'' @ [32]))))"
  proof (rule cleanNames_couple)
    show "\<not> includesStr coupleInconnu
            (toLowerCase (display (js ''DUPONT'') (js ''Jean'') @ js ''<br>'' @ display (js ''MARTIN'') (js ''Marie'')))"
      by (simp add: includesStr_def coupleInconnu_def toLowerCase_def js_def display_def)
  qed (simp_all add: name_eval)
  then show ?thesis by (simp add: name_eval)
qed

lemma cleanNames_durand_petit:
  "cleanNames ft removeAccents (Some (js ''DURAND Paul<br>PETIT Anne'')) = Inr (js ''Paul Durand - Anne Petit'')"
proof -
  have "cleanNames ft removeAccents
          (Some (display (js ''DURAND'') (js ''Paul'') @ js ''<br>'' @ display (js ''PETIT'') (js ''Anne'')))
        = Inr (titleize (Some (removeAccents (js ''Paul'') @ [32] @ removeAccents (js ''DURAND'' @ [32]))) @
               js '' - '' @
               titleize (Some (removeAccents (js ''Anne'') @ [32] @ removeAccents (js ''PETIT'' @ [32]))))"
  proof (rule cleanNames_couple)
    show "\<not> includesStr coupleInconnu
            (toLowerCase (display (js ''DURAND'') (js ''Paul'') @ js ''<br>'' @ display (js ''PETIT'') (js ''Anne'')))"
      by (simp add: includesStr_def coupleInconnu_def toLowerCase_def js_def display_def)
  qed (simp_all add: name_eval)
  then show ?thesis by (simp add: name_eval)
qed

text \<open>Two heats that rank the same two couples differently.\<close>

definition finalHeat :: "row list" where
  "finalHeat =
     [\<lparr>namesHtml = Some (js ''DUPONT Jean<br>MARTIN Marie''), rankText = js ''1''\<rparr>,
      \<lparr>namesHtml = Some (js ''DURAND Paul<br>PETIT Anne''), rankText = js ''2''\<rparr>]"

definition semiFinal :: "row list" where
  "semiFinal =
     [\<lparr>namesHtml = Some (js ''DURAND Paul<br>PETIT Anne''), rankText = js ''1''\<rparr>,
      \<lparr>namesHtml = Some (js ''DUPONT Jean<br>MARTIN Marie''), rankText = js ''3''\<rparr>]"

lemma rankHeats_example:
  "rankHeats ft removeAccents t 0 [finalHeat, semiFinal] []
     = Inr [(js ''Jean Dupont - Marie Martin'', Some 1), (js ''Paul Durand - Anne Petit'', Some 2)]"
proof -
  have p: "parseInt (js ''1'') = Some 1" "parseInt (js ''2'') = Some 2" "parseInt (js ''3'') = Some 3"
    by (simp_all add: rank_eval)
  have ne: "js ''Paul Durand - Anne Petit'' \<noteq> js ''Jean Dupont - Marie Martin''"
    by (simp add: js_def)
  have k: "js ''Jean Dupont - Marie Martin'' \<notin> set objectPrototypeKeys"
    "js ''Paul Durand - Anne Petit'' \<notin> set objectPrototypeKeys"
    by (simp_all add: objectPrototypeKeys_def js_def)
  show ?thesis
    using ne k by (simp add: finalHeat_def semiFinal_def cleanNames_dupont_martin cleanNames_durand_petit p hasKey_def)
qed

lemma extractRanking_example:
  "extractRanking emptyPage (\<lambda>body. []) (\<lambda>body. [finalHeat, semiFinal]) ft removeAccents url offline
     = (Inr \<lparr>title = [],
             results = [(js ''Jean Dupont - Marie Martin'', Some 1), (js ''Paul Durand - Anne Petit'', Some 2)]\<rparr>,
        \<lparr>net = (), fetched = [url]\<rparr>)"
proof -
  have cc: "cleanContest [] = []"
    by (simp add: cleanContest_def replaceFirst_def labelPoints_def labelSansPoints_def js_def trim_def)
  have rq: "request emptyPage url offline = (Inr [], \<lparr>net = (), fetched = [url]\<rparr>)"
    by (simp add: request_def emptyPage_def offline_def)
  show ?thesis
    unfolding extractRanking_def rq by (simp add: cc rankHeats_example del: rankHeats.simps)
qed

theorem extractRanking_first_seen_witness:
  "fst (extractRanking emptyPage (\<lambda>body. []) (\<lambda>body. [finalHeat, semiFinal]) functionText removeAccents
          (js ''r'') offline)
     = Inr \<lparr>title = [],
            results = [(js ''Jean Dupont - Marie Martin'', Some 1), (js ''Paul Durand - Anne Petit'', Some 2)]\<rparr>
   \<and> map_of [(js ''Jean Dupont - Marie Martin'', Some 1), (js ''Paul Durand - Anne Petit'', Some 2)]
        (nameOf functionText removeAccents (concat [finalHeat, semiFinal] ! 3))
       = Some (parseInt (rankText (concat [finalHeat, semiFinal] ! 0)))"
proof -
  have n: "nameOf functionText removeAccents (concat [finalHeat, semiFinal] ! 3) = js ''Jean Dupont - Marie Martin''"
    "nameOf functionText removeAccents (concat [finalHeat, semiFinal] ! 0) = js ''Jean Dupont - Marie Martin''"
    by (simp_all add: finalHeat_def semiFinal_def nameOf_def cleanNames_dupont_martin)
  have l: "length (concat [finalHeat, semiFinal]) = 4"
    by (simp add: finalHeat_def semiFinal_def)
  have rq: "request emptyPage (js ''r'') offline = (Inr [], \<lparr>net = (), fetched = [js ''r'']\<rparr>)"
    by (simp add: request_def emptyPage_def offline_def)
  from extractRanking_first_seen
         [OF rq extractRanking_example [where ft = functionText], THEN conjunct2, THEN conjunct2]
  have "\<forall>i < length (concat [finalHeat, semiFinal]). \<forall>j \<le> i.
            nameOf functionText removeAccents (concat [finalHeat, semiFinal] ! j) = nameOf functionText removeAccents (concat [finalHeat, semiFinal] ! i)
            \<and> (\<forall>j' < j. nameOf functionText removeAccents (concat [finalHeat, semiFinal] ! j') \<noteq> nameOf functionText removeAccents (concat [finalHeat, semiFinal] ! j))
            \<longrightarrow> map_of [(js ''Jean Dupont - Marie Martin'', Some 1), (js ''Paul Durand - Anne Petit'', Some 2)]
                  (nameOf functionText removeAccents (concat [finalHeat, semiFinal] ! i))
                 = Some (parseInt (rankText (concat [finalHeat, semiFinal] ! j)))"
    by simp
  then have "map_of [(js ''Jean Dupont - Marie Martin'', Some 1), (js ''Paul Durand - Anne Petit'', Some 2)]
        (nameOf functionText removeAccents (concat [finalHeat, semiFinal] ! 3))
       = Some (parseInt (rankText (concat [finalHeat, semiFinal] ! 0)))"
    using l n by force
  then show ?thesis by (simp add: extractRanking_example)
qed

section \<open>Competition headers\<close>

text \<open>
  A competition with the fields of section 3 of the specification; \<open>cdate\<close> and \<open>cid\<close> are
  its \<open>date\<close> and \<open>id\<close>. Its \<open>dataUrls\<close> are an ordered set: a list without duplicates,
  read as a list by \<open>urlsOf\<close>.
\<close>

record competition =
  place :: jsstring
  cdate :: moment
  cid :: jsstring
  provider :: jsstring
  dataUrls :: "jsstring dlist"
  contests :: "contest list"

definition urlsOf :: "competition \<Rightarrow> jsstring list" where
  "urlsOf c = list_of_dlist (dataUrls c)"

text \<open>
  Modelled from the spec: the constructor of \<open>../models/competition\<close>, which is not among
  the sources. \<open>extractHeader\<close> passes it place, date, url, provider and id; by section 3
  the competition holds the detail address in \<open>dataUrls\<close> and has no contests until they
  are fetched.
\<close>

definition newCompetition :: "jsstring \<Rightarrow> moment \<Rightarrow> jsstring \<Rightarrow> jsstring \<Rightarrow> jsstring \<Rightarrow> competition" where
  "newCompetition p d u pr i =
     \<lparr>place = p, cdate = d, cid = i, provider = pr, dataUrls = Dlist [u], contests = []\<rparr>"

text \<open>
  A row of the listing as \<open>extractHeader\<close> reads it: the \<open>href\<close> of the link in its last
  cell (\<open>undefined\<close> when there is none) and the text of its first two cells. The options
  of the provider, and the library functions \<open>extractHeader\<close> calls, which are parameters:
  \<open>moment(text, format)\<close> (\<open>None\<close> for an invalid date, whose accessors return \<open>NaN\<close>),
  \<open>format('YYYYMMDD')\<close>, \<open>sprintf\<close> with one argument, \<open>slugify\<close> and \<open>md5\<close>.
\<close>

record line =
  href :: "jsstring option"
  placeCell :: jsstring
  dateCell :: jsstring

record opts =
  opt_url :: jsstring
  opt_list :: jsstring
  opt_details :: jsstring
  opt_clubs :: jsstring
  opt_couples :: jsstring
  opt_search :: jsstring
  opt_dateFormat :: jsstring
  opt_name :: jsstring

record lib =
  momentParse :: "jsstring \<Rightarrow> jsstring \<Rightarrow> moment option"
  formatYYYYMMDD :: "moment \<Rightarrow> jsstring"
  sprintf :: "jsstring \<Rightarrow> jsstring \<Rightarrow> jsstring"
  slugify :: "jsstring \<Rightarrow> jsstring"
  md5 :: "jsstring \<Rightarrow> jsstring"

text \<open>
  \<open>href.match(/NumManif=(\d+)$/)\<close>: the digits at the end of the address, when there are
  some and \<open>NumManif=\<close> stands before them. \<open>replace(/\(\s*\w+\s*\)/, '')\<close> removes the
  leftmost bracket that holds one word.
\<close>

definition isDigit :: "nat \<Rightarrow> bool" where
  "isDigit c = (48 \<le> c \<and> c \<le> 57)"

definition isWordChar :: "nat \<Rightarrow> bool" where
  "isWordChar c = ((48 \<le> c \<and> c \<le> 57) \<or> (65 \<le> c \<and> c \<le> 90) \<or> (97 \<le> c \<and> c \<le> 122) \<or> c = 95)"

definition numManif :: "jsstring \<Rightarrow> jsstring option" where
  "numManif h =
     (let digits = rev (takeWhile isDigit (rev h));
          front = take (length h - length digits) h
      in if digits \<noteq> [] \<and> length (js ''NumManif='') \<le> length front
            \<and> drop (length front - length (js ''NumManif='')) front = js ''NumManif=''
         then Some digits else None)"

definition parenAt :: "jsstring \<Rightarrow> jsstring option" where
  "parenAt s =
     (case s of
        [] \<Rightarrow> None
      | c # r \<Rightarrow>
          (let r1 = dropWhile isWhiteSpace r;
               r2 = dropWhile isWhiteSpace (dropWhile isWordChar r1)
           in if c = 40 \<and> takeWhile isWordChar r1 \<noteq> [] \<and> take 1 r2 = [41]
              then Some (drop 1 r2) else None))"

fun removeParen :: "jsstring \<Rightarrow> jsstring" where
  "removeParen [] = []"
| "removeParen (c # cs) =
     (case parenAt (c # cs) of Some rest \<Rightarrow> rest | None \<Rightarrow> c # removeParen cs)"

definition headerPlace :: "jsstring \<Rightarrow> jsstring" where
  "headerPlace cell = trim (removeParen (titleize (Some (toLowerCase (trim cell)))))"

definition extractHeader :: "lib \<Rightarrow> opts \<Rightarrow> int \<Rightarrow> line \<Rightarrow> competition option" where
  "extractHeader l opts y ln =
     (case href ln of
        None \<Rightarrow> None
      | Some h \<Rightarrow>
          (if h = [] then None
           else (case numManif h of
                   None \<Rightarrow> None
                 | Some manif \<Rightarrow>
                     (case momentParse l (dateCell ln) (opt_dateFormat opts) of
                        None \<Rightarrow> None
                      | Some d \<Rightarrow>
                          (if \<not> isWithinSeason y d then None
                           else Some (newCompetition (headerPlace (placeCell ln)) d
                                        (sprintf l (opt_url opts @ [47] @ opt_details opts) manif)
                                        (js ''ffds'')
                                        (md5 l (slugify l (headerPlace (placeCell ln)) @ formatYYYYMMDD l d))))))))"

text \<open>
  Sample options, a sample library that reads one date, and four rows of a listing: two
  for the same competition in Paris, written differently and with different links, one
  without a link, and one in Lyon.
\<close>

definition exampleLib :: lib where
  "exampleLib =
     \<lparr>momentParse = (\<lambda>text format. if text = js ''14/10/2023'' then Some (day_of 2023 9 14) else None),
      formatYYYYMMDD = (\<lambda>d. if d = day_of 2023 9 14 then js ''20231014'' else []),
      sprintf = (\<lambda>format arg. replaceFirst (js ''%s'') arg format),
      slugify = toLowerCase,
      md5 = (\<lambda>s. s)\<rparr>"

definition exampleOpts :: opts where
  "exampleOpts =
     \<lparr>opt_url = js ''http://ffds'', opt_list = js ''liste.php'', opt_details = js ''detail.php?id=%s'',
      opt_clubs = js ''clubs.php'', opt_couples = js ''couples.php?club=%s'',
      opt_search = js ''recherche.php?nom=%s'', opt_dateFormat = js ''DD/MM/YYYY'', opt_name = js ''FFDS''\<rparr>"

definition parisRow :: line where
  "parisRow = \<lparr>href = Some (js ''r.php?NumManif=12''), placeCell = js ''PARIS (75)'', dateCell = js ''14/10/2023''\<rparr>"

definition parisAgain :: line where
  "parisAgain = \<lparr>href = Some (js ''r.php?NumManif=34''), placeCell = js ''Paris'', dateCell = js ''14/10/2023''\<rparr>"

definition noLinkRow :: line where
  "noLinkRow = \<lparr>href = None, placeCell = js ''Nice'', dateCell = js ''14/10/2023''\<rparr>"

definition lyonRow :: line where
  "lyonRow = \<lparr>href = Some (js ''r.php?NumManif=56''), placeCell = js ''LYON'', dateCell = js ''14/10/2023''\<rparr>"

definition competitionAt :: "jsstring \<Rightarrow> jsstring \<Rightarrow> jsstring \<Rightarrow> competition" where
  "competitionAt p manif i =
     newCompetition p (day_of 2023 9 14) (js ''http://ffds/detail.php?id='' @ manif) (js ''ffds'') i"

section \<open>Merging competitions\<close>

text \<open>First-seen order without duplicates, and the entries that are not missing.\<close>

fun uniqFrom :: "'a list \<Rightarrow> 'a list \<Rightarrow> 'a list" where
  "uniqFrom seen [] = []"
| "uniqFrom seen (x # xs) = (if x \<in> set seen then uniqFrom seen xs else x # uniqFrom (x # seen) xs)"

definition uniq :: "'a list \<Rightarrow> 'a list" where
  "uniq xs = uniqFrom [] xs"

definition present :: "'a option list \<Rightarrow> 'a list" where
  "present xs = concat (map (\<lambda>x. case x of None \<Rightarrow> [] | Some c \<Rightarrow> [c]) xs)"

text \<open>
  Modelled from the spec: the grouping of section 4.5, for \<open>mergeCompetitions\<close> below. The
  competitions are grouped by \<open>id\<close>, each group as its first member and the later ones,
  the groups in the order of their first members; a group of more than one member becomes
  its first member with the union of the members' \<open>dataUrls\<close>.
\<close>

function groups :: "competition list \<Rightarrow> (competition \<times> competition list) list" where
  "groups [] = []"
| "groups (c # cs) =
     (c, filter (\<lambda>d. cid d = cid c) cs) # groups (filter (\<lambda>d. cid d \<noteq> cid c) cs)"
  by pat_completeness auto
termination
  by (relation "measure length") (simp_all add: less_Suc_eq_le)

definition mergeGroup :: "competition \<times> competition list \<Rightarrow> competition" where
  "mergeGroup g =
     (case g of (c, others) \<Rightarrow>
        if others = [] then c
        else c\<lparr>dataUrls := Dlist (uniq (concat (map urlsOf (c # others))))\<rparr>)"

text \<open>
  Modelled from the spec: \<open>mergeCompetitions\<close> of \<open>../utils\<close>, which is not among the
  sources. Section 4.5: drop the missing entries; group the others by \<open>id\<close>; a group of
  more than one member becomes one competition with the fields of its first member and the
  union of the members' \<open>dataUrls\<close> in first-seen order without duplicates; the output has
  one competition for each \<open>id\<close>, in the order of first occurrence.
\<close>

definition mergeCompetitions :: "competition option list \<Rightarrow> competition list" where
  "mergeCompetitions candidates = map mergeGroup (groups (present candidates))"

lemma set_uniqFrom: "set (uniqFrom seen xs) = set xs - set seen"
  by (induction seen xs rule: uniqFrom.induct) auto

lemma distinct_uniqFrom: "distinct (uniqFrom seen xs)"
  by (induction seen xs rule: uniqFrom.induct) (auto simp: set_uniqFrom)

lemma uniqFrom_distinct: "distinct xs \<Longrightarrow> set xs \<inter> set seen = {} \<Longrightarrow> uniqFrom seen xs = xs"
  by (induction seen xs rule: uniqFrom.induct) auto

lemma set_uniq: "set (uniq xs) = set xs"
  by (simp add: uniq_def set_uniqFrom)

lemma distinct_uniq: "distinct (uniq xs)"
  by (simp add: uniq_def distinct_uniqFrom)

lemma uniq_distinct: "distinct xs \<Longrightarrow> uniq xs = xs"
  by (simp add: uniq_def uniqFrom_distinct)

lemma present_Cons:
  "present (None # xs) = present xs" "present (Some c # xs) = c # present xs" "present [] = []"
  by (simp_all add: present_def)

lemma set_present: "set (present xs) = {c. Some c \<in> set xs}"
  by (induction xs) (auto simp: present_def split: option.splits)

lemma groups_first_member: "(g, others) \<in> set (groups cs) \<Longrightarrow> g \<in> set cs"
  by (induction cs rule: groups.induct) auto

lemma groups_members:
  "(g, others) \<in> set (groups cs) \<Longrightarrow> g # others = filter (\<lambda>d. cid d = cid g) cs"
proof (induction cs rule: groups.induct)
  case 1
  then show ?case by simp
next
  case (2 c cs)
  show ?case
  proof (cases "(g, others) = (c, filter (\<lambda>d. cid d = cid c) cs)")
    case True
    then show ?thesis by simp
  next
    case False
    with "2.prems" have in_rest: "(g, others) \<in> set (groups (filter (\<lambda>d. cid d \<noteq> cid c) cs))"
      by auto
    then have "g \<in> set (filter (\<lambda>d. cid d \<noteq> cid c) cs)" by (rule groups_first_member)
    then have ne: "cid g \<noteq> cid c" by simp
    from "2.IH" [OF in_rest]
    have "g # others = filter (\<lambda>d. cid d = cid g) (filter (\<lambda>d. cid d \<noteq> cid c) cs)" .
    also have "\<dots> = filter (\<lambda>d. cid d = cid g) cs"
      using ne by (auto intro: filter_cong)
    finally show ?thesis using ne by simp
  qed
qed

lemma groups_ids:
  "map (\<lambda>g. cid (fst g)) (groups (filter (\<lambda>d. cid d \<notin> set seen) cs)) = uniqFrom seen (map cid cs)"
proof (induction cs arbitrary: seen)
  case Nil
  then show ?case by simp
next
  case (Cons c cs)
  show ?case
  proof (cases "cid c \<in> set seen")
    case True
    then show ?thesis using Cons.IH [of seen] by simp
  next
    case False
    have "filter (\<lambda>d. cid d \<noteq> cid c) (filter (\<lambda>d. cid d \<notin> set seen) cs)
            = filter (\<lambda>d. cid d \<notin> set (cid c # seen)) cs"
      by (auto intro: filter_cong)
    with False show ?thesis using Cons.IH [of "cid c # seen"] by simp
  qed
qed

lemma cid_mergeGroup: "cid (mergeGroup g) = cid (fst g)"
  by (cases g) (simp add: mergeGroup_def)

lemma mergeCompetitions_ids:
  "map cid (mergeCompetitions candidates) = uniq (map cid (present candidates))"
  using groups_ids [of "[]" "present candidates"]
  by (simp add: mergeCompetitions_def uniq_def cid_mergeGroup comp_def)

lemma urlsOf_Dlist_uniq: "urlsOf (c\<lparr>dataUrls := Dlist (uniq xs)\<rparr>) = uniq xs"
  by (simp add: urlsOf_def distinct_uniq)

lemma uniq_urlsOf: "uniq (urlsOf c) = urlsOf c"
  by (simp add: urlsOf_def uniq_distinct)

lemma urlsOf_mergeGroup: "urlsOf (mergeGroup (c, others)) = uniq (concat (map urlsOf (c # others)))"
  by (simp add: mergeGroup_def urlsOf_Dlist_uniq uniq_urlsOf)

lemma mergeCompetitions_member:
  assumes "m \<in> set (mergeCompetitions candidates)"
  shows "\<exists>first others.
           first # others = filter (\<lambda>c. cid c = cid m) (present candidates)
           \<and> m = first\<lparr>dataUrls := dataUrls m\<rparr>
           \<and> urlsOf m = uniq (concat (map urlsOf (first # others)))"
proof -
  from assms obtain g others where g: "(g, others) \<in> set (groups (present candidates))"
    and m: "m = mergeGroup (g, others)"
    by (auto simp: mergeCompetitions_def)
  from g have mem: "g # others = filter (\<lambda>d. cid d = cid g) (present candidates)"
    by (rule groups_members)
  have idm: "cid m = cid g" unfolding m by (simp add: cid_mergeGroup)
  have fields: "m = g\<lparr>dataUrls := dataUrls m\<rparr>"
    unfolding m by (simp add: mergeGroup_def)
  have urls: "urlsOf m = uniq (concat (map urlsOf (g # others)))"
    unfolding m by (rule urlsOf_mergeGroup)
  from mem idm fields urls show ?thesis by metis
qed

lemma mergeCompetitions_pair:
  assumes "cid c1 = cid c2"
  shows "mergeCompetitions [Some c1, Some c2] = [c1\<lparr>dataUrls := Dlist (uniq (urlsOf c1 @ urlsOf c2))\<rparr>]"
  using assms by (simp add: mergeCompetitions_def present_Cons mergeGroup_def)

lemma extractHeader_fields:
  assumes "extractHeader l opts y ln = Some c"
  shows "\<exists>manif d. numManif (the (href ln)) = Some manif
           \<and> momentParse l (dateCell ln) (opt_dateFormat opts) = Some d \<and> isWithinSeason y d
           \<and> c = newCompetition (headerPlace (placeCell ln)) d
                    (sprintf l (opt_url opts @ [47] @ opt_details opts) manif) (js ''ffds'')
                    (md5 l (slugify l (headerPlace (placeCell ln)) @ formatYYYYMMDD l d))"
  using assms by (auto simp: extractHeader_def split: option.splits if_splits)

lemma extractHeader_id:
  assumes "extractHeader l opts y ln = Some c"
  shows "cid c = md5 l (slugify l (place c) @ formatYYYYMMDD l (cdate c))"
  using extractHeader_fields [OF assms] by (auto simp: newCompetition_def)

lemma extractHeader_same_id:
  assumes "extractHeader l opts y ln1 = Some c1" and "extractHeader l opts y ln2 = Some c2"
    and "place c1 = place c2" and "cdate c1 = cdate c2"
  shows "cid c1 = cid c2"
  using extractHeader_id [OF assms(1)] extractHeader_id [OF assms(2)] assms(3,4) by simp

text \<open>
  Claim C2. For every list of candidates, some of them missing, the merge drops the
  missing entries and returns one competition for each distinct \<open>id\<close>, in the order of
  first occurrence. Each has the fields of the first candidate with its \<open>id\<close>, and as
  \<open>dataUrls\<close> those of all the candidates with this \<open>id\<close>, in first-seen order without
  duplicates. Two candidates of \<open>extractHeader\<close> with the same place and the same date
  have the same \<open>id\<close>, and merge into one competition with the detail addresses of both,
  in either order of the input.
\<close>

theorem mergeCompetitions_dedup:
  "map cid (mergeCompetitions candidates) = uniq (map cid (present candidates))
       \<and> distinct (map cid (mergeCompetitions candidates))
       \<and> (\<forall>m \<in> set (mergeCompetitions candidates). \<exists>first others.
             first # others = filter (\<lambda>c. cid c = cid m) (present candidates)
             \<and> m = first\<lparr>dataUrls := dataUrls m\<rparr>
             \<and> urlsOf m = uniq (concat (map urlsOf (first # others))))
       \<and> (\<forall>ln1 ln2 c1 c2.
             extractHeader l opts y ln1 = Some c1 \<and> extractHeader l opts y ln2 = Some c2
             \<and> place c1 = place c2 \<and> cdate c1 = cdate c2 \<longrightarrow>
             (\<exists>m m'. mergeCompetitions [Some c1, Some c2] = [m]
                   \<and> mergeCompetitions [Some c2, Some c1] = [m']
                   \<and> urlsOf m = uniq (urlsOf c1 @ urlsOf c2)
                   \<and> urlsOf m' = uniq (urlsOf c2 @ urlsOf c1)
                   \<and> set (urlsOf m) = set (urlsOf c1) \<union> set (urlsOf c2)
                   \<and> set (urlsOf m') = set (urlsOf c1) \<union> set (urlsOf c2)
                   \<and> place m = place c1 \<and> cdate m = cdate c1 \<and> cid m = cid c1
                   \<and> place m' = place c1 \<and> cdate m' = cdate c1 \<and> cid m' = cid c1))"
proof (intro conjI ballI allI impI)
  show ids: "map cid (mergeCompetitions candidates) = uniq (map cid (present candidates))"
    by (rule mergeCompetitions_ids)
  show "distinct (map cid (mergeCompetitions candidates))"
    unfolding ids by (rule distinct_uniq)
next
  fix m assume "m \<in> set (mergeCompetitions candidates)"
  then show "\<exists>first others.
             first # others = filter (\<lambda>c. cid c = cid m) (present candidates)
             \<and> m = first\<lparr>dataUrls := dataUrls m\<rparr>
             \<and> urlsOf m = uniq (concat (map urlsOf (first # others)))"
    by (rule mergeCompetitions_member)
next
  fix ln1 ln2 c1 c2
  assume h: "extractHeader l opts y ln1 = Some c1 \<and> extractHeader l opts y ln2 = Some c2
             \<and> place c1 = place c2 \<and> cdate c1 = cdate c2"
  then have same: "cid c1 = cid c2" "place c1 = place c2" "cdate c1 = cdate c2"
    using extractHeader_same_id [of l opts y ln1 c1 ln2 c2] by simp_all
  have a: "mergeCompetitions [Some c1, Some c2] = [c1\<lparr>dataUrls := Dlist (uniq (urlsOf c1 @ urlsOf c2))\<rparr>]"
    using same(1) by (rule mergeCompetitions_pair)
  have b: "mergeCompetitions [Some c2, Some c1] = [c2\<lparr>dataUrls := Dlist (uniq (urlsOf c2 @ urlsOf c1))\<rparr>]"
    using same(1) [symmetric] by (rule mergeCompetitions_pair)
  show "\<exists>m m'. mergeCompetitions [Some c1, Some c2] = [m]
                   \<and> mergeCompetitions [Some c2, Some c1] = [m']
                   \<and> urlsOf m = uniq (urlsOf c1 @ urlsOf c2)
                   \<and> urlsOf m' = uniq (urlsOf c2 @ urlsOf c1)
                   \<and> set (urlsOf m) = set (urlsOf c1) \<union> set (urlsOf c2)
                   \<and> set (urlsOf m') = set (urlsOf c1) \<union> set (urlsOf c2)
                   \<and> place m = place c1 \<and> cdate m = cdate c1 \<and> cid m = cid c1
                   \<and> place m' = place c1 \<and> cdate m' = cdate c1 \<and> cid m' = cid c1"
    unfolding a b using same by (auto simp: urlsOf_Dlist_uniq set_uniq)
qed

text \<open>
  What \<open>extractHeader\<close> makes of the four sample rows for the season 2023: the two rows of
  Paris give the same place, date and \<open>id\<close>, and the row without a link gives nothing.
\<close>

lemma headerPlace_examples:
  "headerPlace (js ''PARIS (75)'') = js ''Paris''"
  "headerPlace (js ''Paris'') = js ''Paris''"
  "headerPlace (js ''LYON'') = js ''Lyon''"
  by (simp_all add: headerPlace_def js_def trim_def isWhiteSpace_def toLowerCase_def titleize_def
      makeString_def toUpperCase_def upperUnits_def parenAt_def isWordChar_def Let_def)

lemma numManif_examples:
  "numManif (js ''r.php?NumManif=12'') = Some (js ''12'')"
  "numManif (js ''r.php?NumManif=34'') = Some (js ''34'')"
  "numManif (js ''r.php?NumManif=56'') = Some (js ''56'')"
  by (simp_all add: numManif_def js_def isDigit_def Let_def)

lemma sprintf_example:
  "sprintf exampleLib (opt_url exampleOpts @ 47 # opt_details exampleOpts) manif
     = js ''http://ffds/detail.php?id='' @ manif"
  by (simp add: exampleLib_def exampleOpts_def replaceFirst_def js_def)

lemma extractHeader_examples:
  "extractHeader exampleLib exampleOpts 2023 parisRow = Some (competitionAt (js ''Paris'') (js ''12'') (js ''paris20231014''))"
  "extractHeader exampleLib exampleOpts 2023 parisAgain = Some (competitionAt (js ''Paris'') (js ''34'') (js ''paris20231014''))"
  "extractHeader exampleLib exampleOpts 2023 lyonRow = Some (competitionAt (js ''Lyon'') (js ''56'') (js ''lyon20231014''))"
  "extractHeader exampleLib exampleOpts 2023 noLinkRow = None"
proof -
  have season: "isWithinSeason 2023 (day_of 2023 9 14)"
    by (simp add: isWithinSeason_def isFirstHalf_def day_of_def)
  have parse: "momentParse exampleLib (js ''14/10/2023'') (opt_dateFormat exampleOpts) = Some (day_of 2023 9 14)"
    by (simp add: exampleLib_def)
  have ids: "md5 exampleLib (slugify exampleLib (js ''Paris'') @ formatYYYYMMDD exampleLib (day_of 2023 9 14))
               = js ''paris20231014''"
    "md5 exampleLib (slugify exampleLib (js ''Lyon'') @ formatYYYYMMDD exampleLib (day_of 2023 9 14))
               = js ''lyon20231014''"
    by (simp_all add: exampleLib_def toLowerCase_def js_def)
  have ne: "js ''r.php?NumManif=12'' \<noteq> []" "js ''r.php?NumManif=34'' \<noteq> []" "js ''r.php?NumManif=56'' \<noteq> []"
    by (simp_all add: js_def)
  show "extractHeader exampleLib exampleOpts 2023 parisRow = Some (competitionAt (js ''Paris'') (js ''12'') (js ''paris20231014''))"
    by (simp add: extractHeader_def parisRow_def ne numManif_examples parse season headerPlace_examples
        sprintf_example ids competitionAt_def)
  show "extractHeader exampleLib exampleOpts 2023 parisAgain = Some (competitionAt (js ''Paris'') (js ''34'') (js ''paris20231014''))"
    by (simp add: extractHeader_def parisAgain_def ne numManif_examples parse season headerPlace_examples
        sprintf_example ids competitionAt_def)
  show "extractHeader exampleLib exampleOpts 2023 lyonRow = Some (competitionAt (js ''Lyon'') (js ''56'') (js ''lyon20231014''))"
    by (simp add: extractHeader_def lyonRow_def ne numManif_examples parse season headerPlace_examples
        sprintf_example ids competitionAt_def)
  show "extractHeader exampleLib exampleOpts 2023 noLinkRow = None"
    by (simp add: extractHeader_def noLinkRow_def)
qed

theorem mergeCompetitions_dedup_witness:
  "map cid (mergeCompetitions (map (extractHeader exampleLib exampleOpts 2023) [parisRow, noLinkRow, lyonRow, parisAgain]))
     = [js ''paris20231014'', js ''lyon20231014'']
   \<and> map urlsOf (mergeCompetitions (map (extractHeader exampleLib exampleOpts 2023) [parisRow, noLinkRow, lyonRow, parisAgain]))
     = [[js ''http://ffds/detail.php?id=12'', js ''http://ffds/detail.php?id=34''],
        [js ''http://ffds/detail.php?id=56'']]
   \<and> (\<exists>m m'.
         mergeCompetitions [extractHeader exampleLib exampleOpts 2023 parisRow,
                            extractHeader exampleLib exampleOpts 2023 parisAgain] = [m]
       \<and> mergeCompetitions [extractHeader exampleLib exampleOpts 2023 parisAgain,
                            extractHeader exampleLib exampleOpts 2023 parisRow] = [m']
       \<and> urlsOf m = [js ''http://ffds/detail.php?id=12'', js ''http://ffds/detail.php?id=34'']
       \<and> urlsOf m' = [js ''http://ffds/detail.php?id=34'', js ''http://ffds/detail.php?id=12''])"
proof -
  let ?p12 = "competitionAt (js ''Paris'') (js ''12'') (js ''paris20231014'')"
  let ?p34 = "competitionAt (js ''Paris'') (js ''34'') (js ''paris20231014'')"
  let ?l56 = "competitionAt (js ''Lyon'') (js ''56'') (js ''lyon20231014'')"
  note dedup = mergeCompetitions_dedup
               [of "[Some ?p12, None, Some ?l56, Some ?p34]" exampleLib exampleOpts 2023]
  have ne: "js ''lyon20231014'' \<noteq> js ''paris20231014''"
    "js ''http://ffds/detail.php?id=34'' \<noteq> js ''http://ffds/detail.php?id=12''"
    by (simp_all add: js_def)
  have u: "urlsOf ?p12 = [js ''http://ffds/detail.php?id=12'']"
    "urlsOf ?p34 = [js ''http://ffds/detail.php?id=34'']"
    "urlsOf ?l56 = [js ''http://ffds/detail.php?id=56'']"
    by (simp_all add: urlsOf_def competitionAt_def newCompetition_def js_def)
  have c: "cid ?p12 = js ''paris20231014''" "cid ?p34 = js ''paris20231014''" "cid ?l56 = js ''lyon20231014''"
    "place ?p12 = place ?p34" "cdate ?p12 = cdate ?p34"
    by (simp_all add: competitionAt_def newCompetition_def)
  have ids: "map cid (mergeCompetitions [Some ?p12, None, Some ?l56, Some ?p34])
               = [js ''paris20231014'', js ''lyon20231014'']"
    using dedup [THEN conjunct1] ne by (simp add: present_Cons c uniq_def)
  have merged: "mergeCompetitions [Some ?p12, None, Some ?l56, Some ?p34]
                  = [mergeGroup (?p12, [?p34]), mergeGroup (?l56, [])]"
    using ne by (simp add: mergeCompetitions_def present_Cons c)
  have urls: "map urlsOf (mergeCompetitions [Some ?p12, None, Some ?l56, Some ?p34])
                = [[js ''http://ffds/detail.php?id=12'', js ''http://ffds/detail.php?id=34''],
                   [js ''http://ffds/detail.php?id=56'']]"
    unfolding merged using ne by (simp add: urlsOf_mergeGroup u uniq_def)
  from dedup [THEN conjunct2, THEN conjunct2, THEN conjunct2, rule_format,
              where ?ln1.0 = parisRow and ?ln2.0 = parisAgain and ?c1.0 = ?p12 and ?c2.0 = ?p34]
  have "\<exists>m m'. mergeCompetitions [Some ?p12, Some ?p34] = [m]
           \<and> mergeCompetitions [Some ?p34, Some ?p12] = [m']
           \<and> urlsOf m = uniq (urlsOf ?p12 @ urlsOf ?p34)
           \<and> urlsOf m' = uniq (urlsOf ?p34 @ urlsOf ?p12)"
    using extractHeader_examples c by auto
  then have pair: "\<exists>m m'. mergeCompetitions [Some ?p12, Some ?p34] = [m]
           \<and> mergeCompetitions [Some ?p34, Some ?p12] = [m']
           \<and> urlsOf m = [js ''http://ffds/detail.php?id=12'', js ''http://ffds/detail.php?id=34'']
           \<and> urlsOf m' = [js ''http://ffds/detail.php?id=34'', js ''http://ffds/detail.php?id=12'']"
    using ne by (simp add: u uniq_def)
  from ids urls pair show ?thesis
    by (simp add: extractHeader_examples)
qed

section \<open>Serial task runner\<close>

text \<open>
  Modelled from the spec: \<open>runSerially\<close> of \<open>../utils\<close>, which is not among the sources.
  Section 4.6: the deferred operations are executed one at a time in the order of the
  list; when all succeed their results are returned in that order; at the first failure
  no further operation is started and the failure is the result. A deferred operation
  is a function on the state of the world that returns a failure or a value.
\<close>

fun runSerially :: "('w \<Rightarrow> (error + 'a) \<times> 'w) list \<Rightarrow> 'w \<Rightarrow> (error + 'a list) \<times> 'w" where
  "runSerially [] w = (Inr [], w)"
| "runSerially (task # tasks) w =
     (case task w of
        (Inl e, w') \<Rightarrow> (Inl e, w')
      | (Inr v, w') \<Rightarrow>
          (case runSerially tasks w' of
             (Inl e, w'') \<Rightarrow> (Inl e, w'')
           | (Inr vs, w'') \<Rightarrow> (Inr (v # vs), w'')))"

text \<open>
  To observe which operations are invoked, operation \<open>k\<close> of a list can be made to write
  its number into a log. \<open>thread\<close> is the sequence of outcomes when every operation is run
  in turn, each in the world the one before it has left: operation \<open>k\<close> is the first to
  fail when its outcome is the first failure of that sequence.
\<close>

definition logged :: "nat \<Rightarrow> ('w \<Rightarrow> (error + 'a) \<times> 'w) \<Rightarrow> 'w \<times> nat list \<Rightarrow> (error + 'a) \<times> 'w \<times> nat list" where
  "logged k task s = (case s of (w, log) \<Rightarrow> (case task w of (r, w') \<Rightarrow> (r, (w', log @ [k]))))"

fun numbered :: "nat \<Rightarrow> ('w \<Rightarrow> (error + 'a) \<times> 'w) list \<Rightarrow> ('w \<times> nat list \<Rightarrow> (error + 'a) \<times> 'w \<times> nat list) list" where
  "numbered n [] = []"
| "numbered n (task # tasks) = logged n task # numbered (Suc n) tasks"

fun thread :: "('w \<Rightarrow> (error + 'a) \<times> 'w) list \<Rightarrow> 'w \<Rightarrow> ((error + 'a) \<times> 'w) list" where
  "thread [] w = []"
| "thread (task # tasks) w = (case task w of (r, w') \<Rightarrow> (r, w') # thread tasks w')"

lemma length_thread: "length (thread ops w) = length ops"
  by (induction ops arbitrary: w) (auto split: prod.splits)

lemma runSerially_fails:
  assumes "k < length ops" and "\<forall>i<k. \<not> isl (fst (thread ops w ! i))"
    and "fst (thread ops w ! k) = Inl e"
  shows "runSerially ops w = (Inl e, snd (thread ops w ! k))"
  using assms
proof (induction ops arbitrary: k w)
  case Nil
  then show ?case by simp
next
  case (Cons t ts)
  obtain r w' where t: "t w = (r, w')" by (cases "t w")
  then have th: "thread (t # ts) w = (r, w') # thread ts w'" by simp
  show ?case
  proof (cases k)
    case 0
    with Cons.prems(3) th have "r = Inl e" by simp
    with 0 th t show ?thesis by simp
  next
    case (Suc k')
    from Cons.prems(2) Suc th have "\<not> isl r" by force
    then obtain v where r: "r = Inr v" by (cases r) simp_all
    have "k' < length ts" using Cons.prems(1) Suc by simp
    moreover have "\<forall>i<k'. \<not> isl (fst (thread ts w' ! i))"
      using Cons.prems(2) Suc th by force
    moreover have "fst (thread ts w' ! k') = Inl e"
      using Cons.prems(3) Suc th by simp
    ultimately have "runSerially ts w' = (Inl e, snd (thread ts w' ! k'))" by (rule Cons.IH)
    then show ?thesis using Suc th by (simp add: t r)
  qed
qed

lemma runSerially_fails_log:
  assumes "k < length ops" and "\<forall>i<k. \<not> isl (fst (thread ops w ! i))"
    and "fst (thread ops w ! k) = Inl e"
  shows "runSerially (numbered n ops) (w, log) = (Inl e, (snd (thread ops w ! k), log @ [n..<n + k + 1]))"
  using assms
proof (induction ops arbitrary: k w n log)
  case Nil
  then show ?case by simp
next
  case (Cons t ts)
  obtain r w' where t: "t w = (r, w')" by (cases "t w")
  then have th: "thread (t # ts) w = (r, w') # thread ts w'" by simp
  have lg: "logged n t (w, log) = (r, (w', log @ [n]))" by (simp add: logged_def t)
  show ?case
  proof (cases k)
    case 0
    with Cons.prems(3) th have "r = Inl e" by simp
    with 0 th lg show ?thesis by simp
  next
    case (Suc k')
    from Cons.prems(2) Suc th have "\<not> isl r" by force
    then obtain v where r: "r = Inr v" by (cases r) simp_all
    have "k' < length ts" using Cons.prems(1) Suc by simp
    moreover have "\<forall>i<k'. \<not> isl (fst (thread ts w' ! i))"
      using Cons.prems(2) Suc th by force
    moreover have "fst (thread ts w' ! k') = Inl e"
      using Cons.prems(3) Suc th by simp
    ultimately have "runSerially (numbered (Suc n) ts) (w', log @ [n])
        = (Inl e, (snd (thread ts w' ! k'), (log @ [n]) @ [Suc n..<Suc n + k' + 1]))"
      by (rule Cons.IH)
    then show ?thesis using Suc th by (simp add: lg r upt_rec [of n])
  qed
qed

lemma runSerially_succeeds:
  assumes "\<forall>i<length ops. \<not> isl (fst (thread ops w ! i))"
  shows "\<exists>w'. runSerially ops w = (Inr (map (\<lambda>out. projr (fst out)) (thread ops w)), w')"
  using assms
proof (induction ops arbitrary: w)
  case Nil
  then show ?case by simp
next
  case (Cons t ts)
  obtain r w' where t: "t w = (r, w')" by (cases "t w")
  then have th: "thread (t # ts) w = (r, w') # thread ts w'" by simp
  from Cons.prems th have "\<not> isl r" by force
  then obtain v where r: "r = Inr v" by (cases r) simp_all
  have "\<forall>i<length ts. \<not> isl (fst (thread ts w' ! i))"
    using Cons.prems th by force
  from Cons.IH [OF this] obtain w'' where
    "runSerially ts w' = (Inr (map (\<lambda>out. projr (fst out)) (thread ts w')), w'')" by blast
  then show ?case using th by (simp add: t r)
qed

lemma runSerially_succeeds_log:
  assumes "\<forall>i<length ops. \<not> isl (fst (thread ops w ! i))"
  shows "\<exists>w'. runSerially (numbered n ops) (w, log)
           = (Inr (map (\<lambda>out. projr (fst out)) (thread ops w)), (w', log @ [n..<n + length ops]))"
  using assms
proof (induction ops arbitrary: w n log)
  case Nil
  then show ?case by simp
next
  case (Cons t ts)
  obtain r w' where t: "t w = (r, w')" by (cases "t w")
  then have th: "thread (t # ts) w = (r, w') # thread ts w'" by simp
  have lg: "logged n t (w, log) = (r, (w', log @ [n]))" by (simp add: logged_def t)
  from Cons.prems th have "\<not> isl r" by force
  then obtain v where r: "r = Inr v" by (cases r) simp_all
  have "\<forall>i<length ts. \<not> isl (fst (thread ts w' ! i))"
    using Cons.prems th by force
  from Cons.IH [OF this, of "Suc n" "log @ [n]"] obtain w'' where
    "runSerially (numbered (Suc n) ts) (w', log @ [n])
       = (Inr (map (\<lambda>out. projr (fst out)) (thread ts w')), (w'', (log @ [n]) @ [Suc n..<Suc n + length ts]))"
    by blast
  moreover have "log @ [n..<n + length (t # ts)] = (log @ [n]) @ [Suc n..<Suc n + length ts]"
    by (simp add: upt_rec [of n] del: upt_Suc)
  ultimately show ?case using th by (simp add: lg r del: upt_Suc)
qed


text \<open>
  Claim C6. If operation \<open>k + 1\<close> of the list is the first to fail, the runner returns its
  failure (and so none of the earlier results), the log of invocations is \<open>1, ..., k + 1\<close>,
  and the world is as that operation left it: the later operations are never invoked. If
  all operations succeed, the result is the list of their values in the order of the
  input, and the log is \<open>1, ..., N\<close>.
\<close>

theorem runSerially_first_failure:
  "(k < length ops \<and> (\<forall>i<k. \<not> isl (fst (thread ops w ! i))) \<and> fst (thread ops w ! k) = Inl e \<longrightarrow>
       runSerially ops w = (Inl e, snd (thread ops w ! k))
     \<and> runSerially (numbered 1 ops) (w, []) = (Inl e, (snd (thread ops w ! k), [1..<k + 2])))
   \<and> ((\<forall>i<length ops. \<not> isl (fst (thread ops w ! i))) \<longrightarrow>
       fst (runSerially ops w) = Inr (map (\<lambda>out. projr (fst out)) (thread ops w))
     \<and> fst (runSerially (numbered 1 ops) (w, [])) = Inr (map (\<lambda>out. projr (fst out)) (thread ops w))
     \<and> snd (snd (runSerially (numbered 1 ops) (w, []))) = [1..<length ops + 1])"
proof (intro conjI impI)
  assume h: "k < length ops \<and> (\<forall>i<k. \<not> isl (fst (thread ops w ! i))) \<and> fst (thread ops w ! k) = Inl e"
  then show "runSerially ops w = (Inl e, snd (thread ops w ! k))"
    by (intro runSerially_fails) simp_all
  from h have "runSerially (numbered 1 ops) (w, []) = (Inl e, (snd (thread ops w ! k), [] @ [1..<1 + k + 1]))"
    by (intro runSerially_fails_log) simp_all
  then show "runSerially (numbered 1 ops) (w, []) = (Inl e, (snd (thread ops w ! k), [1..<k + 2]))"
    by (simp del: upt_Suc)
next
  assume h: "\<forall>i<length ops. \<not> isl (fst (thread ops w ! i))"
  from runSerially_succeeds [OF h]
  show "fst (runSerially ops w) = Inr (map (\<lambda>out. projr (fst out)) (thread ops w))" by auto
  from runSerially_succeeds_log [OF h, of 1 "[]"] obtain w' where
    r: "runSerially (numbered 1 ops) (w, [])
          = (Inr (map (\<lambda>out. projr (fst out)) (thread ops w)), (w', [] @ [1..<1 + length ops]))"
    by blast
  then show "fst (runSerially (numbered 1 ops) (w, [])) = Inr (map (\<lambda>out. projr (fst out)) (thread ops w))"
    by simp
  from r show "snd (snd (runSerially (numbered 1 ops) (w, []))) = [1..<length ops + 1]"
    by (simp del: upt_Suc)
qed

text \<open>Operations on a counter: each invocation increments it.\<close>

definition succeedWith :: "nat \<Rightarrow> nat \<Rightarrow> (error + nat) \<times> nat" where
  "succeedWith v w = (Inr v, Suc w)"

definition failWith :: "error \<Rightarrow> nat \<Rightarrow> (error + nat) \<times> nat" where
  "failWith e w = (Inl e, Suc w)"

theorem runSerially_first_failure_witness:
  "runSerially [succeedWith 7, failWith TypeError, succeedWith 9] 0 = (Inl TypeError, 2)
   \<and> runSerially (numbered 1 [succeedWith 7, failWith TypeError, succeedWith 9]) (0, [])
       = (Inl TypeError, (2, [1, 2]))
   \<and> fst (runSerially [succeedWith 7, succeedWith 8, succeedWith 9] 0) = Inr [7, 8, 9]
   \<and> snd (snd (runSerially (numbered 1 [succeedWith 7, succeedWith 8, succeedWith 9]) (0, []))) = [1, 2, 3]"
proof -
  have a: "Suc 0 < length [succeedWith 7, failWith TypeError, succeedWith 9]
     \<and> (\<forall>i<Suc 0. \<not> isl (fst (thread [succeedWith 7, failWith TypeError, succeedWith 9] 0 ! i)))
     \<and> fst (thread [succeedWith 7, failWith TypeError, succeedWith 9] 0 ! Suc 0) = Inl TypeError"
    by (simp add: succeedWith_def failWith_def)
  have s: "snd (thread [succeedWith 7, failWith TypeError, succeedWith 9] 0 ! Suc 0) = 2"
    by (simp add: succeedWith_def failWith_def)
  have b: "\<forall>i<length [succeedWith 7, succeedWith 8, succeedWith 9].
             \<not> isl (fst (thread [succeedWith 7, succeedWith 8, succeedWith 9] 0 ! i))"
    by (simp add: succeedWith_def less_Suc_eq all_conj_distrib)
  have m: "map (\<lambda>out. projr (fst out)) (thread [succeedWith 7, succeedWith 8, succeedWith 9] 0) = [7, 8, 9]"
    by (simp add: succeedWith_def)
  have u: "[1..<Suc 0 + 2] = [1, 2]" "[1..<length [succeedWith 7, succeedWith 8, succeedWith 9] + 1] = [1, 2, 3]"
    by (simp_all add: upt_rec)
  from runSerially_first_failure
         [of "Suc 0" "[succeedWith 7, failWith TypeError, succeedWith 9]" 0 TypeError, THEN conjunct1, THEN mp, OF a]
       runSerially_first_failure
         [of _ "[succeedWith 7, succeedWith 8, succeedWith 9]" 0, THEN conjunct2, THEN mp, OF b]
  show ?thesis unfolding s m u by blast
qed

section \<open>Provider operations\<close>

text \<open>
  Modelled from the spec: \<open>handleRequestError\<close> of \<open>../utils\<close>, which is not among the
  sources. Sections 6 and 7: a failure is wrapped with a prefix that names the operation
  and the provider, and the operation is rejected with it.
\<close>

definition handleRequestError :: "jsstring \<Rightarrow> error \<Rightarrow> error" where
  "handleRequestError message cause = RequestError message cause"

text \<open>
  \<open>listResults\<close>: the address is built from the options and the season of \<open>now\<close> (the
  value of \<open>moment()\<close>), requested once, and the rows of the listing go through
  \<open>extractHeader\<close> and \<open>mergeCompetitions\<close>. The rows of the page are a parameter.
\<close>

definition listResultsUrl :: "opts \<Rightarrow> int \<Rightarrow> moment \<Rightarrow> jsstring" where
  "listResultsUrl opts y now =
     opt_url opts @ [47] @ opt_list opts @ (if isWithinSeason y now then [] else js ''?Archives'')"

definition listResults ::
  "(jsstring \<Rightarrow> 'n \<Rightarrow> (error + jsstring) \<times> 'n) \<Rightarrow> (jsstring \<Rightarrow> line list) \<Rightarrow> lib \<Rightarrow> opts
     \<Rightarrow> int \<Rightarrow> moment \<Rightarrow> 'n world \<Rightarrow> (error + competition list) \<times> 'n world" where
  "listResults transport listingRows l opts y now w =
     (case request transport (listResultsUrl opts y now) w of
        (Inl e, w') \<Rightarrow>
          (Inl (handleRequestError (js ''failed to fetch results from '' @ opt_name opts) e), w')
      | (Inr body, w') \<Rightarrow>
          (Inr (mergeCompetitions (map (extractHeader l opts y) (listingRows body))), w'))"

text \<open>
  \<open>getDetails\<close>: one deferred request for each detail address, run serially, then one
  deferred \<open>extractRanking\<close> for each link found, run serially. A link without \<open>href\<close>
  is written \<open>undefined\<close> by the template.
\<close>

definition hrefText :: "jsstring option \<Rightarrow> jsstring" where
  "hrefText h = (case h of None \<Rightarrow> js ''undefined'' | Some x \<Rightarrow> x)"

definition detailTask ::
  "(jsstring \<Rightarrow> 'n \<Rightarrow> (error + jsstring) \<times> 'n) \<Rightarrow> (jsstring \<Rightarrow> jsstring option list) \<Rightarrow> opts
     \<Rightarrow> competition \<Rightarrow> jsstring \<Rightarrow> 'n world \<Rightarrow> (error + jsstring list) \<times> 'n world" where
  "detailTask transport detailLinks opts competition url w =
     (case request transport url w of
        (Inl e, w') \<Rightarrow>
          (Inl (handleRequestError
                  (js ''failed to fetch contests from '' @ opt_name opts @ [32] @ place competition) e), w')
      | (Inr body, w') \<Rightarrow>
          (Inr (map (\<lambda>link. opt_url opts @ [47] @ hrefText link) (detailLinks body)), w'))"

definition rankingTask ::
  "(jsstring \<Rightarrow> 'n \<Rightarrow> (error + jsstring) \<times> 'n) \<Rightarrow> (jsstring \<Rightarrow> jsstring) \<Rightarrow> (jsstring \<Rightarrow> row list list)
     \<Rightarrow> jsstring \<Rightarrow> (jsstring \<Rightarrow> jsstring) \<Rightarrow> opts \<Rightarrow> competition \<Rightarrow> jsstring \<Rightarrow> 'n world
     \<Rightarrow> (error + contest) \<times> 'n world" where
  "rankingTask transport h3Text portlets ft ra opts competition url w =
     (case extractRanking transport h3Text portlets ft ra url w of
        (Inl e, w') \<Rightarrow>
          (Inl (handleRequestError
                  (js ''failed to fetch contest ranking from '' @ opt_name opts @ [32] @ place competition) e), w')
      | (Inr c, w') \<Rightarrow> (Inr c, w'))"

definition getDetails ::
  "(jsstring \<Rightarrow> 'n \<Rightarrow> (error + jsstring) \<times> 'n) \<Rightarrow> (jsstring \<Rightarrow> jsstring option list)
     \<Rightarrow> (jsstring \<Rightarrow> jsstring) \<Rightarrow> (jsstring \<Rightarrow> row list list) \<Rightarrow> jsstring \<Rightarrow> (jsstring \<Rightarrow> jsstring) \<Rightarrow> opts
     \<Rightarrow> competition \<Rightarrow> 'n world \<Rightarrow> (error + competition) \<times> 'n world" where
  "getDetails transport detailLinks h3Text portlets ft ra opts competition w =
     (case runSerially (map (detailTask transport detailLinks opts competition) (urlsOf competition)) w of
        (Inl e, w') \<Rightarrow> (Inl e, w')
      | (Inr rawUrls, w') \<Rightarrow>
          (let urls = uniq (concat rawUrls) in
           if urls = [] then (Inr (competition\<lparr>contests := []\<rparr>), w')
           else (case runSerially (map (rankingTask transport h3Text portlets ft ra opts competition) urls) w' of
                   (Inl e, w'') \<Rightarrow> (Inl e, w'')
                 | (Inr cs, w'') \<Rightarrow> (Inr (competition\<lparr>contests := cs\<rparr>), w''))))"

text \<open>
  The provider keeps the clubs once it has fetched them, \<open>null\<close> before. \<open>searchGroups\<close>
  fills the cache on first use.
\<close>

record club =
  club_id :: jsstring
  club_name :: jsstring

record provider =
  clubs :: "club list option"

definition searchClubs :: "jsstring \<Rightarrow> club list \<Rightarrow> jsstring list" where
  "searchClubs searchedStr cl =
     map club_name (filter (\<lambda>c. includesStr searchedStr (toLowerCase (club_name c))) cl)"

definition searchGroups ::
  "(jsstring \<Rightarrow> 'n \<Rightarrow> (error + jsstring) \<times> 'n) \<Rightarrow> (jsstring \<Rightarrow> club list) \<Rightarrow> opts \<Rightarrow> jsstring
     \<Rightarrow> provider \<Rightarrow> 'n world \<Rightarrow> (error + jsstring list) \<times> provider \<times> 'n world" where
  "searchGroups transport clubOptions opts searched this w =
     (let searchedStr = toLowerCase (trim searched) in
      case clubs this of
        Some cl \<Rightarrow> (Inr (searchClubs searchedStr cl), this, w)
      | None \<Rightarrow>
          (case request transport (opt_url opts @ [47] @ opt_clubs opts) w of
             (Inl e, w') \<Rightarrow>
               (Inl (handleRequestError (js ''failed to fetch group list from '' @ opt_name opts) e), this, w')
           | (Inr body, w') \<Rightarrow>
               (Inr (searchClubs searchedStr (clubOptions body)),
                this\<lparr>clubs := Some (clubOptions body)\<rparr>, w')))"

text \<open>
  \<open>extractNames\<close> over the text of the first cell of each row of couples; a failure of
  \<open>cleanNames\<close> is thrown again with the row written into the message.
\<close>

fun extractNames :: "jsstring \<Rightarrow> (jsstring \<Rightarrow> jsstring) \<Rightarrow> jsstring list \<Rightarrow> error + jsstring list" where
  "extractNames ft ra [] = Inr []"
| "extractNames ft ra (cell # cells) =
     (case cleanNames ft ra (Some (replaceFirst (js '' / '') (js ''<br>'') (trim cell))) of
        Inl exc \<Rightarrow> Inl (NamesParseError (js ''[object Object]'') exc)
      | Inr names \<Rightarrow>
          (case extractNames ft ra cells of Inl e \<Rightarrow> Inl e | Inr rest \<Rightarrow> Inr (names # rest)))"

text \<open>
  The argument of \<open>getGroupCouples\<close> can be any value. \<open>Joi.string().empty().required()\<close>
  accepts the strings that are not empty (\<open>empty()\<close> without a schema changes nothing, and
  a \<open>Joi\<close> string is not allowed to be empty); it reports a missing value as required and
  any other value as not a string.
\<close>

datatype jsvalue = Undefined | Null | Str jsstring | NotString

definition validateGroup :: "jsvalue \<Rightarrow> error option" where
  "validateGroup grp =
     (case grp of
        Undefined \<Rightarrow> Some (ValidationError (js ''group parameter'') Required)
      | Str s \<Rightarrow> if s = [] then Some (ValidationError (js ''group parameter'') NotAllowedEmpty) else None
      | Null \<Rightarrow> Some (ValidationError (js ''group parameter'') NotAString)
      | NotString \<Rightarrow> Some (ValidationError (js ''group parameter'') NotAString))"

text \<open>
  The inner \<open>search\<close> of \<open>getGroupCouples\<close>, and the operation itself: validation first,
  then the search, after \<open>searchGroups('')\<close> when the clubs are not there yet.
\<close>

definition groupCouples ::
  "(jsstring \<Rightarrow> 'n \<Rightarrow> (error + jsstring) \<times> 'n) \<Rightarrow> (jsstring \<Rightarrow> jsstring list) \<Rightarrow> lib
     \<Rightarrow> jsstring \<Rightarrow> (jsstring \<Rightarrow> jsstring) \<Rightarrow> opts \<Rightarrow> jsstring \<Rightarrow> provider \<Rightarrow> 'n world
     \<Rightarrow> (error + jsstring list) \<times> provider \<times> 'n world" where
  "groupCouples transport coupleCells l ft ra opts grp this w =
     (case clubs this of
        None \<Rightarrow> (Inl TypeError, this, w)
      | Some cl \<Rightarrow>
          (case find (\<lambda>c. toLowerCase (club_name c) = toLowerCase (trim grp)) cl of
             None \<Rightarrow> (Inl (GroupNotFound grp), this, w)
           | Some c \<Rightarrow>
               (let message = js ''failed to fetch couples of group '' @ grp @ js '' from '' @ opt_name opts in
                case request transport (sprintf l (opt_url opts @ [47] @ opt_couples opts) (club_id c)) w of
                  (Inl e, w') \<Rightarrow> (Inl (handleRequestError message e), this, w')
                | (Inr body, w') \<Rightarrow>
                    (case extractNames ft ra (coupleCells body) of
                       Inl e \<Rightarrow> (Inl (handleRequestError message e), this, w')
                     | Inr names \<Rightarrow> (Inr names, this, w')))))"

definition getGroupCouples ::
  "(jsstring \<Rightarrow> 'n \<Rightarrow> (error + jsstring) \<times> 'n) \<Rightarrow> (jsstring \<Rightarrow> club list) \<Rightarrow> (jsstring \<Rightarrow> jsstring list)
     \<Rightarrow> lib \<Rightarrow> jsstring \<Rightarrow> (jsstring \<Rightarrow> jsstring) \<Rightarrow> opts \<Rightarrow> jsvalue \<Rightarrow> provider \<Rightarrow> 'n world
     \<Rightarrow> (error + jsstring list) \<times> provider \<times> 'n world" where
  "getGroupCouples transport clubOptions coupleCells l ft ra opts grp this w =
     (case validateGroup grp of
        Some err \<Rightarrow> (Inl err, this, w)
      | None \<Rightarrow>
          (case grp of
             Str g \<Rightarrow>
               (if clubs this \<noteq> None then groupCouples transport coupleCells l ft ra opts g this w
                else (case searchGroups transport clubOptions opts [] this w of
                        (Inl e, this', w') \<Rightarrow> (Inl e, this', w')
                      | (Inr found, this', w') \<Rightarrow> groupCouples transport coupleCells l ft ra opts g this' w'))
           | _ \<Rightarrow> (Inl TypeError, this, w)))"

text \<open>The season that contains a date: the year before for a date of the first half.\<close>

definition seasonOf :: "moment \<Rightarrow> int" where
  "seasonOf d = (if isFirstHalf d then year d - 1 else year d)"

lemma isWithinSeason_seasonOf: "isWithinSeason y d \<longleftrightarrow> seasonOf d = y"
  by (auto simp: isWithinSeason_def seasonOf_def)

lemma fetched_request: "fetched (snd (request transport url w)) = fetched w @ [url]"
  by (simp add: request_def split: prod.splits)

text \<open>
  Claim C7. \<open>listResults\<close> requests exactly one address: the listing address
  \<open>url/list\<close> when the season that contains \<open>now\<close> is the season \<open>year\<close>, and that
  address followed by \<open>?Archives\<close> otherwise.
\<close>

theorem listResults_endpoint:
  "fetched (snd (listResults transport listingRows l opts y now w))
     = fetched w @ [opt_url opts @ [47] @ opt_list opts @ (if seasonOf now = y then [] else js ''?Archives'')]"
proof -
  have "snd (listResults transport listingRows l opts y now w)
          = snd (request transport (listResultsUrl opts y now) w)"
    by (simp add: listResults_def split: prod.splits sum.splits)
  then show ?thesis
    by (simp add: fetched_request listResultsUrl_def isWithinSeason_seasonOf)
qed

theorem listResults_endpoint_witness:
  "fetched (snd (listResults emptyPage (\<lambda>body. []) exampleLib exampleOpts 2022 (day_of 2023 1 20) offline))
     = [js ''http://ffds/liste.php'']
   \<and> fetched (snd (listResults emptyPage (\<lambda>body. []) exampleLib exampleOpts 2022 (day_of 2023 8 20) offline))
     = [js ''http://ffds/liste.php?Archives'']"
  using listResults_endpoint [of emptyPage "\<lambda>body. []" exampleLib exampleOpts 2022 "day_of 2023 1 20" offline]
    listResults_endpoint [of emptyPage "\<lambda>body. []" exampleLib exampleOpts 2022 "day_of 2023 8 20" offline]
  by (simp add: seasonOf_def isFirstHalf_def day_of_def exampleOpts_def offline_def js_def)

text \<open>
  Claim C10. When the group is missing (\<open>undefined\<close> or \<open>null\<close>) or the empty string,
  \<open>getGroupCouples\<close> is rejected with the validation failure of the group parameter, and
  neither the world nor the provider has changed: nothing was requested and the cache of
  clubs was not filled.
\<close>

theorem getGroupCouples_validation:
  assumes "grp = Undefined \<or> grp = Null \<or> grp = Str []"
  shows "getGroupCouples transport clubOptions coupleCells l ft ra opts grp this w
           = (Inl (ValidationError (js ''group parameter'')
                     (case grp of Undefined \<Rightarrow> Required | Str s \<Rightarrow> NotAllowedEmpty | _ \<Rightarrow> NotAString)),
              this, w)"
  using assms by (auto simp: getGroupCouples_def validateGroup_def)

theorem getGroupCouples_validation_witness:
  "getGroupCouples emptyPage (\<lambda>body. []) (\<lambda>body. []) exampleLib functionText removeAccents exampleOpts
      (Str []) \<lparr>clubs = None\<rparr> offline
     = (Inl (ValidationError (js ''group parameter'') NotAllowedEmpty), \<lparr>clubs = None\<rparr>, offline)
   \<and> fetched offline = []"
  using getGroupCouples_validation
          [of "Str []" emptyPage "\<lambda>body. []" "\<lambda>body. []" exampleLib functionText removeAccents exampleOpts
              "\<lparr>clubs = None\<rparr>" offline]
  by (simp add: offline_def)

end
